theory Spec2Isabelle
  imports Main
begin

section \<open>Exceptions and effectful code\<close>

text \<open>
  The Python sources raise no exception of their own, but the operations they use do:
  an attribute read on \<open>None\<close>, a dictionary update at a missing key, a sleep of
  negative length, and every call into a collaborator (motor driver, sensors, tag
  reader, file system).  A value of \<open>exn\<close> stands for an instance of a subclass of
  Python's \<open>Exception\<close>, named by its class.
\<close>

datatype exn =
    AttributeError
  | KeyError string
  | ValueError
  | OSError
  | ImportError
  | NotImplementedError
  | RuntimeError
  | OtherError string

text \<open>The result of one call: it returns a value or raises.\<close>

datatype 'a outcome = Returns 'a | Raises exn

text \<open>
  Code that mutates a state \<open>'s\<close> and may raise: the state reached is returned in both
  cases, since the assignments made before a raise stay made.
\<close>

type_synonym ('a, 's) prog = "'s \<Rightarrow> 'a outcome \<times> 's"

definition ret :: "'a \<Rightarrow> ('a, 's) prog" where
  "ret a = (\<lambda>s. (Returns a, s))"

definition raise :: "exn \<Rightarrow> ('a, 's) prog" where
  "raise e = (\<lambda>s. (Raises e, s))"

definition bind :: "('a, 's) prog \<Rightarrow> ('a \<Rightarrow> ('b, 's) prog) \<Rightarrow> ('b, 's) prog" where
  "bind m f = (\<lambda>s. case m s of
                      (Returns a, s') \<Rightarrow> f a s'
                    | (Raises e, s') \<Rightarrow> (Raises e, s'))"

definition seq :: "(unit, 's) prog \<Rightarrow> ('b, 's) prog \<Rightarrow> ('b, 's) prog" where
  "seq m k = bind m (\<lambda>_. k)"

definition modify :: "('s \<Rightarrow> 's) \<Rightarrow> (unit, 's) prog" where
  "modify f = (\<lambda>s. (Returns (), f s))"

definition call :: "'a outcome \<Rightarrow> ('a, 's) prog" where
  "call r = (\<lambda>s. (r, s))"

section \<open>data\_logger.py\<close>

text \<open>
  The CSV file is the list of its rows, a row the list of its cells.  The KPI dictionary
  is a map from key to counter.
\<close>

record DataLogger =
  log_file :: "string list list"
  kpis :: "string \<rightharpoonup> int"

definition csv_header :: "string list" where
  "csv_header = [''Time'', ''Station ID'', ''Part ID'', ''Activity'']"

text \<open>\<open>_create_csv\<close>: open the file for writing and write the header row.\<close>

definition create_csv :: "string list list" where
  "create_csv = [csv_header]"

text \<open>
  \<open>__init__\<close>.  The argument is the content of the log file found on disk, \<open>None\<close>
  when there is no such file.
\<close>

definition DataLogger_init :: "string list list option \<Rightarrow> DataLogger" where
  "DataLogger_init existing =
     \<lparr> log_file = (case existing of None \<Rightarrow> create_csv | Some rows \<Rightarrow> rows),
       kpis = [''total_parts'' \<mapsto> 0,
               ''station1_count'' \<mapsto> 0,
               ''station2_count'' \<mapsto> 0,
               ''total_process_time'' \<mapsto> 0,
               ''total_queue_time'' \<mapsto> 0] \<rparr>"

text \<open>\<open>self.kpis[k] += 1\<close>: a missing key raises \<open>KeyError\<close>.\<close>

definition kpi_incr :: "string \<Rightarrow> (unit, DataLogger) prog" where
  "kpi_incr k = (\<lambda>lg. case kpis lg k of
                         None \<Rightarrow> (Raises (KeyError k), lg)
                       | Some v \<Rightarrow> (Returns (), lg\<lparr>kpis := (kpis lg)(k \<mapsto> v + 1)\<rparr>))"

text \<open>\<open>_update_kpis\<close>\<close>

definition update_kpis :: "string \<Rightarrow> string \<Rightarrow> (unit, DataLogger) prog" where
  "update_kpis station_id activity =
     (if activity = ''EXIT'' then
        seq (kpi_incr ''total_parts'')
          (if station_id = ''S1'' then kpi_incr ''station1_count''
           else if station_id = ''S2'' then kpi_incr ''station2_count''
           else ret ())
      else ret ())"

text \<open>
  What one call of \<open>log_event\<close> takes from outside: the wall-clock time as
  \<open>strftime\<close> formats it, and whether opening the file and appending the row succeeds.
\<close>

record log_env =
  timestamp :: string
  file_append :: "unit outcome"

text \<open>
  \<open>log_event\<close>.  The lock is taken around the row append and the counter update; in
  this sequential model a call runs alone, so taking and releasing it changes nothing.
\<close>

definition log_event :: "log_env \<Rightarrow> string \<Rightarrow> string \<Rightarrow> string \<Rightarrow> (unit, DataLogger) prog" where
  "log_event env part_id station_id activity =
     seq (call (file_append env))
    (seq (modify (\<lambda>lg. lg\<lparr>log_file := log_file lg @ [[timestamp env, station_id, part_id, activity]]\<rparr>))
         (update_kpis station_id activity))"

text \<open>\<open>get_kpis\<close>: a copy of the dictionary.\<close>

definition get_kpis :: "DataLogger \<Rightarrow> (string \<rightharpoonup> int)" where
  "get_kpis lg = kpis lg"

text \<open>
  A sequence of \<open>log_event\<close> calls on one logger, each with what it takes from outside
  and its three arguments.  A call that raises leaves the logger as it was when the
  exception left it, and the next call runs on that.
\<close>

type_synonym log_call = "log_env \<times> string \<times> string \<times> string"

definition log_call :: "log_call \<Rightarrow> DataLogger \<Rightarrow> DataLogger" where
  "log_call c lg = (case c of (env, part_id, station_id, activity) \<Rightarrow>
                      snd (log_event env part_id station_id activity lg))"

fun log_events :: "log_call list \<Rightarrow> DataLogger \<Rightarrow> DataLogger" where
  "log_events [] lg = lg"
| "log_events (c # cs) lg = log_events cs (log_call c lg)"

definition call_station :: "log_call \<Rightarrow> string" where
  "call_station c = (case c of (env, part_id, station_id, activity) \<Rightarrow> station_id)"

text \<open>\<open>total_parts == station1_count + station2_count\<close>, all three keys present.\<close>

definition kpi_sum_ok :: "DataLogger \<Rightarrow> bool" where
  "kpi_sum_ok lg =
     (case (kpis lg ''total_parts'', kpis lg ''station1_count'', kpis lg ''station2_count'') of
        (Some t, Some a, Some b) \<Rightarrow> t = a + b
      | _ \<Rightarrow> False)"

text \<open>The three counters that \<open>_update_kpis\<close> touches are keys of the dictionary.\<close>

definition kpi_keys_present :: "DataLogger \<Rightarrow> bool" where
  "kpi_keys_present lg =
     (kpis lg ''total_parts'' \<noteq> None \<and> kpis lg ''station1_count'' \<noteq> None \<and>
      kpis lg ''station2_count'' \<noteq> None)"

section \<open>Decimal numerals\<close>

text \<open>Python's \<open>str\<close> of an integer, as the f-strings of the sources use it.\<close>

definition digit_char :: "nat \<Rightarrow> char" where
  "digit_char d = char_of (48 + d)"

fun show_nat :: "nat \<Rightarrow> string" where
  "show_nat n = (if n < 10 then [digit_char n] else show_nat (n div 10) @ [digit_char (n mod 10)])"

declare show_nat.simps [simp del]

definition show_int :: "int \<Rightarrow> string" where
  "show_int i = (if i < 0 then CHR ''-'' # show_nat (nat (- i)) else show_nat (nat i))"

section \<open>station\_controller.py\<close>

datatype StationState = IDLE | ADVANCING_TO_PROCESS | PROCESSING | ADVANCING_TO_EXIT | EXITING

text \<open>
  Modelled from the spec: the class \<open>Part\<close> of module \<open>nfc_reader\<close>, which is not among
  the sources.  The spec gives a part an identifier and an ordered, append-only sequence
  of (station id, activity, timestamp) events, constructed from the identifier alone;
  \<open>add_event\<close> appends one event.  A \<open>Part\<close> object is true in a condition, as every
  Python object is that defines neither \<open>__bool__\<close> nor \<open>__len__\<close>.
\<close>

record Part =
  part_id :: string
  events :: "(string \<times> string \<times> string) list"

definition new_Part :: "string \<Rightarrow> Part" where
  "new_Part ident = \<lparr> part_id = ident, events = [] \<rparr>"

definition add_event :: "string \<Rightarrow> string \<Rightarrow> string \<Rightarrow> Part \<Rightarrow> Part" where
  "add_event station activity ts p = p\<lparr>events := events p @ [(station, activity, ts)]\<rparr>"

text \<open>
  The messages written with \<open>self.logger\<close> and the import of \<open>Part\<close> inside
  \<open>_state_idle\<close> are left out: they touch none of the state modelled here.

  The calls a controller makes into its collaborators, in the order it makes them.
  Durations are whole milliseconds: \<open>time.sleep(0.05)\<close> is \<open>Sleep 50\<close>, a timeout of
  ten seconds is \<open>10000\<close>.
\<close>

datatype effect =
    SetSpeed int int
  | Stop int
  | Sleep int
  | ReadEntry int
  | ReadExit int
  | WaitForPi int int
  | ReadTag int
  | Join int

text \<open>
  The controller object together with the objects it reaches: the data logger it
  writes to, the \<open>Part\<close> objects it created (a store indexed by the order of creation;
  \<open>current_part\<close> holds a reference into it or \<open>None\<close>), the number of loop threads it
  has spawned, and the calls made so far.
\<close>

record StationController =
  station_num :: int
  station_id :: string
  process_time :: int
  motor_speed :: int
  motor_num :: int
  state :: StationState
  current_part :: "nat option"
  running :: bool
  stop_event :: bool
  thread :: "nat option"
  data_logger :: DataLogger
  parts :: "nat \<Rightarrow> Part"
  next_part :: nat
  threads_started :: nat
  trace :: "effect list"

text \<open>The configuration: a dictionary of two dictionaries.\<close>

record config =
  stations :: "string \<rightharpoonup> int"
  motors :: "string \<rightharpoonup> int"

text \<open>
  \<open>__init__\<close>.  A key missing from the configuration raises \<open>KeyError\<close>.  The process
  time is kept in milliseconds.
\<close>

definition StationController_init :: "int \<Rightarrow> DataLogger \<Rightarrow> config \<Rightarrow> exn + StationController" where
  "StationController_init n lg cfg =
     (case stations cfg (''station'' @ show_int n @ ''_process_time'') of
        None \<Rightarrow> Inl (KeyError (''station'' @ show_int n @ ''_process_time''))
      | Some pt \<Rightarrow>
          (case motors cfg ''station_speed'' of
             None \<Rightarrow> Inl (KeyError ''station_speed'')
           | Some sp \<Rightarrow>
               Inr \<lparr> station_num = n,
                     station_id = ''S'' @ show_int n,
                     process_time = pt,
                     motor_speed = (if n = 1 then sp else - sp),
                     motor_num = 2 + n,
                     state = IDLE,
                     current_part = None,
                     running = False,
                     stop_event = False,
                     thread = None,
                     data_logger = lg,
                     parts = (\<lambda>_. new_Part []),
                     next_part = 0,
                     threads_started = 0,
                     trace = [] \<rparr>))"

text \<open>
  What one iteration of the control loop takes from outside, one field per call site.
  The entry sensors are read up to twice in an iteration (the argument is the number of
  the read); the exit sensors are polled by the clear-wait of \<open>_state_exiting\<close> (the
  argument is the time in milliseconds since the wait began).  \<open>motor_stop\<close> answers the
  stop call of a state handler, \<open>recovery_stop\<close> the one of the loop's \<open>except\<close> clause.
\<close>

record env =
  station1_entry :: "nat \<Rightarrow> bool outcome"
  station2_entry :: "nat \<Rightarrow> bool outcome"
  read_tag :: "string option outcome"
  time_ms :: int
  wait_for_pi :: "int \<Rightarrow> int \<Rightarrow> bool outcome"
  station1_exit :: "int \<Rightarrow> bool outcome"
  station2_exit :: "int \<Rightarrow> bool outcome"
  set_speed :: "int \<Rightarrow> int \<Rightarrow> unit outcome"
  motor_stop :: "int \<Rightarrow> unit outcome"
  recovery_stop :: "int \<Rightarrow> unit outcome"
  logging :: log_env

text \<open>Pin numbers of \<open>SensorReader\<close>.\<close>

definition STATION1_PROCESS :: int where "STATION1_PROCESS = 27"
definition STATION1_EXIT :: int where "STATION1_EXIT = 22"
definition STATION2_PROCESS :: int where "STATION2_PROCESS = 6"
definition STATION2_EXIT :: int where "STATION2_EXIT = 13"

text \<open>A collaborator call: it is recorded, and its outcome is the one given.\<close>

definition do_call :: "effect \<Rightarrow> 'a outcome \<Rightarrow> ('a, StationController) prog" where
  "do_call ev r = (\<lambda>w. (r, w\<lparr>trace := trace w @ [ev]\<rparr>))"

text \<open>\<open>time.sleep\<close>: a negative length raises \<open>ValueError\<close>.\<close>

definition sleep :: "int \<Rightarrow> (unit, StationController) prog" where
  "sleep ms = (if ms < 0 then raise ValueError else do_call (Sleep ms) (Returns ()))"

text \<open>\<open>self.motors.set_speed(self.motor_num, self.motor_speed)\<close>\<close>

definition motors_set_speed :: "env \<Rightarrow> (unit, StationController) prog" where
  "motors_set_speed env =
     (\<lambda>w. do_call (SetSpeed (motor_num w) (motor_speed w)) (set_speed env (motor_num w) (motor_speed w)) w)"

text \<open>\<open>self.motors.stop(self.motor_num)\<close> in a state handler.\<close>

definition motors_stop :: "env \<Rightarrow> (unit, StationController) prog" where
  "motors_stop env = (\<lambda>w. do_call (Stop (motor_num w)) (motor_stop env (motor_num w)) w)"

text \<open>
  \<open>self.sensors.station1_entry() if self.station_num == 1 else self.sensors.station2_entry()\<close>,
  the \<open>k\<close>-th read of the iteration.
\<close>

definition entry_sensor :: "env \<Rightarrow> nat \<Rightarrow> (bool, StationController) prog" where
  "entry_sensor env k =
     (\<lambda>w. if station_num w = 1 then do_call (ReadEntry 1) (station1_entry env k) w
          else do_call (ReadEntry 2) (station2_entry env k) w)"

text \<open>\<open>self.current_part = Part(ident)\<close>: a new object, and a reference to it.\<close>

definition create_part :: "string \<Rightarrow> (unit, StationController) prog" where
  "create_part ident =
     modify (\<lambda>w. w\<lparr>parts := (parts w)(next_part w := new_Part ident),
                   current_part := Some (next_part w),
                   next_part := Suc (next_part w)\<rparr>)"

text \<open>
  \<open>self.data_logger.log_event(self.current_part.part_id, self.station_id, activity)\<close>:
  reading \<open>part_id\<close> of \<open>None\<close> raises \<open>AttributeError\<close>.
\<close>

definition log_current :: "env \<Rightarrow> string \<Rightarrow> (unit, StationController) prog" where
  "log_current env activity =
     (\<lambda>w. case current_part w of
             None \<Rightarrow> (Raises AttributeError, w)
           | Some r \<Rightarrow>
               (case log_event (logging env) (part_id (parts w r)) (station_id w) activity (data_logger w) of
                  (res, lg) \<Rightarrow> (res, w\<lparr>data_logger := lg\<rparr>)))"

text \<open>\<open>self.current_part.add_event(self.station_id, activity)\<close>\<close>

definition part_add_event :: "env \<Rightarrow> string \<Rightarrow> (unit, StationController) prog" where
  "part_add_event env activity =
     (\<lambda>w. case current_part w of
             None \<Rightarrow> (Raises AttributeError, w)
           | Some r \<Rightarrow>
               (Returns (),
                w\<lparr>parts := (parts w)(r := add_event (station_id w) activity (timestamp (logging env)) (parts w r))\<rparr>))"

text \<open>The truth value of a tag read: \<open>None\<close> and the empty string are false.\<close>

definition tag_truthy :: "string option \<Rightarrow> bool" where
  "tag_truthy t = (case t of None \<Rightarrow> False | Some u \<Rightarrow> u \<noteq> [])"

text \<open>\<open>_state_idle\<close>\<close>

definition state_idle :: "env \<Rightarrow> (unit, StationController) prog" where
  "state_idle env =
     bind (entry_sensor env 0) (\<lambda>entry_sensor_check.
       if entry_sensor_check then
         bind (do_call (ReadTag 2000) (read_tag env)) (\<lambda>tag_uid.
         bind (entry_sensor env 1) (\<lambda>entry_sensor_check_after.
           if \<not> entry_sensor_check_after then ret ()
           else
             seq (if tag_truthy tag_uid then create_part (the tag_uid)
                  else create_part (''P'' @ show_int (time_ms env mod 10000)))
            (seq (log_current env ''ENTER'')
            (seq (part_add_event env ''ENTER'')
                 (modify (\<lambda>w. w\<lparr>state := ADVANCING_TO_PROCESS\<rparr>))))))
       else ret ())"

text \<open>The bounded wait on the position sensor of the station, ten seconds.\<close>

definition wait_for_position :: "env \<Rightarrow> int \<Rightarrow> int \<Rightarrow> (bool, StationController) prog" where
  "wait_for_position env pin1 pin2 =
     (\<lambda>w. if station_num w = 1 then do_call (WaitForPi pin1 10000) (wait_for_pi env pin1 10000) w
          else do_call (WaitForPi pin2 10000) (wait_for_pi env pin2 10000) w)"

text \<open>\<open>_state_advancing_to_process\<close>\<close>

definition state_advancing_to_process :: "env \<Rightarrow> (unit, StationController) prog" where
  "state_advancing_to_process env =
     seq (motors_set_speed env)
    (bind (wait_for_position env STATION1_PROCESS STATION2_PROCESS) (\<lambda>sensor_triggered.
     seq (motors_stop env)
       (if sensor_triggered then modify (\<lambda>w. w\<lparr>state := PROCESSING\<rparr>)
        else
          seq (log_current env ''ERROR_TIMEOUT_PROCESS'')
         (seq (modify (\<lambda>w. w\<lparr>current_part := None\<rparr>))
              (modify (\<lambda>w. w\<lparr>state := IDLE\<rparr>))))))"

text \<open>\<open>_state_processing\<close>\<close>

definition state_processing :: "env \<Rightarrow> (unit, StationController) prog" where
  "state_processing env =
     seq (\<lambda>w. sleep (process_time w) w)
         (modify (\<lambda>w. w\<lparr>state := ADVANCING_TO_EXIT\<rparr>))"

text \<open>\<open>_state_advancing_to_exit\<close>\<close>

definition state_advancing_to_exit :: "env \<Rightarrow> (unit, StationController) prog" where
  "state_advancing_to_exit env =
     seq (motors_set_speed env)
    (bind (wait_for_position env STATION1_EXIT STATION2_EXIT) (\<lambda>sensor_triggered.
     seq (motors_stop env)
       (if sensor_triggered then modify (\<lambda>w. w\<lparr>state := EXITING\<rparr>)
        else
          seq (log_current env ''ERROR_TIMEOUT_EXIT'')
         (seq (modify (\<lambda>w. w\<lparr>current_part := None\<rparr>))
              (modify (\<lambda>w. w\<lparr>state := IDLE\<rparr>))))))"

text \<open>
  The clear-wait of \<open>_state_exiting\<close>:
  \<^verbatim>\<open>
  while time.time() - start_time < timeout:
      if not exit_sensor():
          time.sleep(0.5)
          break
      time.sleep(0.1)
  \<close>
  The clock is taken to advance by the sleeps alone, so \<open>elapsed\<close>, the value of
  \<open>time.time() - start_time\<close> at the loop test, grows by 100 each round.
\<close>

function exit_wait :: "(int \<Rightarrow> bool outcome) \<Rightarrow> int \<Rightarrow> int \<Rightarrow> (unit, StationController) prog" where
  "exit_wait exit_sensor n elapsed w =
     (if elapsed < 5000 then
        (case do_call (ReadExit n) (exit_sensor elapsed) w of
           (Raises e, w1) \<Rightarrow> (Raises e, w1)
         | (Returns level, w1) \<Rightarrow>
             if \<not> level then sleep 500 w1
             else (case sleep 100 w1 of
                     (Raises e, w2) \<Rightarrow> (Raises e, w2)
                   | (Returns u, w2) \<Rightarrow> exit_wait exit_sensor n (elapsed + 100) w2))
      else (Returns (), w))"
  by pat_completeness auto
termination
  by (relation "measure (\<lambda>(exit_sensor, n, elapsed, w). nat (5000 - elapsed))") auto

declare exit_wait.simps [simp del]

text \<open>\<open>_state_exiting\<close>\<close>

definition state_exiting :: "env \<Rightarrow> (unit, StationController) prog" where
  "state_exiting env =
     seq (motors_set_speed env)
    (seq (\<lambda>w. if station_num w = 1 then exit_wait (station1_exit env) 1 0 w
              else exit_wait (station2_exit env) 2 0 w)
    (seq (motors_stop env)
    (seq (\<lambda>w. if current_part w \<noteq> None
              then seq (log_current env ''EXIT'') (part_add_event env ''EXIT'') w
              else ret () w)
    (seq (modify (\<lambda>w. w\<lparr>current_part := None\<rparr>))
         (modify (\<lambda>w. w\<lparr>state := IDLE\<rparr>))))))"

text \<open>The state dispatch of the loop body.\<close>

definition handle_state :: "env \<Rightarrow> (unit, StationController) prog" where
  "handle_state env =
     (\<lambda>w. case state w of
             IDLE \<Rightarrow> state_idle env w
           | ADVANCING_TO_PROCESS \<Rightarrow> state_advancing_to_process env w
           | PROCESSING \<Rightarrow> state_processing env w
           | ADVANCING_TO_EXIT \<Rightarrow> state_advancing_to_exit env w
           | EXITING \<Rightarrow> state_exiting env w)"

text \<open>\<open>try: body except Exception: handler\<close>\<close>

definition try_except :: "('a, 's) prog \<Rightarrow> (exn \<Rightarrow> ('a, 's) prog) \<Rightarrow> ('a, 's) prog" where
  "try_except body handler =
     (\<lambda>s. case body s of
             (Returns a, s') \<Rightarrow> (Returns a, s')
           | (Raises e, s') \<Rightarrow> handler e s')"

text \<open>
  The body of the \<open>while\<close> loop of \<open>_run\<close>.  An exception that leaves it leaves the
  loop and ends the thread.
\<close>

definition run_iteration :: "env \<Rightarrow> (unit, StationController) prog" where
  "run_iteration env =
     try_except
       (seq (handle_state env) (sleep 50))
       (\<lambda>e. seq (\<lambda>w. do_call (Stop (motor_num w)) (recovery_stop env (motor_num w)) w)
                 (sleep 1000))"

text \<open>
  \<open>_run\<close>, given what each of its iterations takes from outside.  The loop goes on
  while \<open>self.running and not self.stop_event.is_set()\<close>; \<open>StillLooping\<close> is the loop
  about to begin a further iteration when the given ones are used up.
\<close>

datatype loop_end = StillLooping | LoopExited | LoopRaised exn

fun run :: "env list \<Rightarrow> StationController \<Rightarrow> loop_end \<times> StationController" where
  "run [] w = (if running w \<and> \<not> stop_event w then StillLooping else LoopExited, w)"
| "run (env # envs) w =
     (if running w \<and> \<not> stop_event w then
        (case run_iteration env w of
           (Returns u, w') \<Rightarrow> run envs w'
         | (Raises e, w') \<Rightarrow> (LoopRaised e, w'))
      else (LoopExited, w))"

text \<open>
  \<open>start\<close>: the new thread is counted and its handle kept; creating and starting it
  is taken to succeed.
\<close>

definition start :: "StationController \<Rightarrow> StationController" where
  "start w =
     (if running w then w
      else w\<lparr>running := True,
             stop_event := False,
             thread := Some (threads_started w),
             threads_started := Suc (threads_started w)\<rparr>)"

text \<open>\<open>stop\<close>; the argument is the outcome of its call of \<open>motors.stop\<close>.\<close>

definition stop :: "unit outcome \<Rightarrow> (unit, StationController) prog" where
  "stop stop_result =
     (\<lambda>w. if \<not> running w then (Returns (), w)
          else
            seq (modify (\<lambda>w. w\<lparr>running := False\<rparr>))
           (seq (modify (\<lambda>w. w\<lparr>stop_event := True\<rparr>))
           (seq (\<lambda>w. case thread w of None \<Rightarrow> ret () w | Some t \<Rightarrow> do_call (Join 2000) (Returns ()) w)
                (\<lambda>w. do_call (Stop (motor_num w)) stop_result w))) w)"

section \<open>sensor\_reader.py\<close>

text \<open>
  The module-level \<open>try\<close> around the imports of the hardware libraries.  The argument is
  the outcome of the imports; \<open>except (ImportError, NotImplementedError, RuntimeError)\<close>
  catches these three classes with their subclasses (a missing module raises
  \<open>ModuleNotFoundError\<close>, a subclass of \<open>ImportError\<close>), and any other exception leaves
  the module.
\<close>

definition HARDWARE_AVAILABLE :: "unit outcome \<Rightarrow> exn + bool" where
  "HARDWARE_AVAILABLE imports =
     (case imports of
        Returns u \<Rightarrow> Inr True
      | Raises e \<Rightarrow>
          if e = ImportError \<or> e = NotImplementedError \<or> e = RuntimeError then Inr False
          else Inl e)"

definition PI_PINS :: "nat list" where
  "PI_PINS = [17, 27, 22, 5, 6, 13, 21, 12, 0, 1]"

definition MCP_PIN_MAP :: "(string \<times> nat) list" where
  "MCP_PIN_MAP = [(''CORNER1_RET'', 0), (''CORNER2_RET'', 1), (''CORNER3_RET'', 2),
                  (''CORNER4_RET'', 3), (''CORNER1_EXT'', 4), (''CORNER2_EXT'', 5),
                  (''CORNER3_EXT'', 6), (''CORNER4_EXT'', 7)]"

text \<open>The outcomes of the calls into the GPIO and I2C libraries, one field per call site.\<close>

record hardware =
  gpio_setmode :: "unit outcome"
  gpio_setwarnings :: "unit outcome"
  gpio_setup :: "nat \<Rightarrow> unit outcome"
  i2c_bus :: "unit outcome"
  mcp23017 :: "unit outcome"
  mcp_get_pin :: "nat \<Rightarrow> unit outcome"
  pin_set_direction :: "nat \<Rightarrow> unit outcome"
  pin_set_pull :: "nat \<Rightarrow> unit outcome"

text \<open>What the constructor writes with \<open>self.logger\<close>.\<close>

datatype log_record = INFO string | ERROR string | ERROR_exc string exn

text \<open>\<open>d[k] = v\<close> on a dictionary kept as the list of its items in insertion order.\<close>

fun dict_set :: "'k \<Rightarrow> 'v \<Rightarrow> ('k \<times> 'v) list \<Rightarrow> ('k \<times> 'v) list" where
  "dict_set k v [] = [(k, v)]"
| "dict_set k v (item # items) =
     (if fst item = k then (k, v) # items else item # dict_set k v items)"

text \<open>
  The reader: \<open>mcp\<close> is \<open>None\<close> or the expander device, \<open>mcp_pins\<close> is the dictionary from
  a name to its pin object, given by the pin number.
\<close>

record SensorReader =
  simulation :: bool
  mcp :: "unit option"
  mcp_pins :: "(string \<times> nat) list"
  logged :: "log_record list"

definition logger :: "log_record \<Rightarrow> (unit, SensorReader) prog" where
  "logger r = modify (\<lambda>s. s\<lparr>logged := logged s @ [r]\<rparr>)"

text \<open>\<open>for pin in self.PI_PINS: GPIO.setup(pin, GPIO.IN, pull_up_down=GPIO.PUD_UP)\<close>\<close>

fun setup_pins :: "hardware \<Rightarrow> nat list \<Rightarrow> (unit, SensorReader) prog" where
  "setup_pins hw [] = ret ()"
| "setup_pins hw (pin # pins) = seq (call (gpio_setup hw pin)) (setup_pins hw pins)"

text \<open>The loop over \<open>self.MCP_PIN_MAP.items()\<close>.\<close>

fun configure_pins :: "hardware \<Rightarrow> (string \<times> nat) list \<Rightarrow> (unit, SensorReader) prog" where
  "configure_pins hw [] = ret ()"
| "configure_pins hw ((name, pin_num) # items) =
     seq (call (mcp_get_pin hw pin_num))
    (seq (call (pin_set_direction hw pin_num))
    (seq (call (pin_set_pull hw pin_num))
    (seq (modify (\<lambda>s. s\<lparr>mcp_pins := dict_set name pin_num (mcp_pins s)\<rparr>))
         (configure_pins hw items))))"

text \<open>
  \<open>SensorReader.__init__\<close>, given its argument \<open>simulation\<close>, the module's
  \<open>HARDWARE_AVAILABLE\<close> and the hardware.
\<close>

definition SensorReader_init :: "bool \<Rightarrow> bool \<Rightarrow> hardware \<Rightarrow> unit outcome \<times> SensorReader" where
  "SensorReader_init simulation_arg hardware_available hw =
     (let s0 = \<lparr> simulation = simulation_arg \<or> \<not> hardware_available, mcp = None,
                 mcp_pins = [], logged = [] \<rparr>
      in if \<not> simulation s0 then
           try_except
             (seq (call (gpio_setmode hw))
             (seq (call (gpio_setwarnings hw))
             (seq (setup_pins hw PI_PINS)
             (seq (logger (INFO (''Initialized '' @ show_nat (length PI_PINS) @ '' native GPIO sensors'')))
             (seq (logger (INFO ''Initializing MCP23017 GPIO expander...''))
             (seq (call (i2c_bus hw))
             (seq (call (mcp23017 hw))
             (seq (modify (\<lambda>s. s\<lparr>mcp := Some ()\<rparr>))
             (seq (configure_pins hw MCP_PIN_MAP)
                  (\<lambda>s. logger (INFO (''Initialized '' @ show_nat (length (mcp_pins s)) @ '' expander sensors'')) s))))))))))
             (\<lambda>e. seq (logger (ERROR_exc ''Failed to initialize hardware: '' e))
                 (seq (logger (ERROR ''Falling back to simulation mode''))
                      (modify (\<lambda>s. s\<lparr>simulation := True\<rparr>))))
             s0
         else logger (INFO ''Running in SIMULATION mode'') s0)"

section \<open>Threads calling the data logger\<close>

text \<open>
  Several threads call \<open>log_event\<close> on one data logger, and a reader calls \<open>get_kpis\<close>.
  A thread runs its call statement by statement, and between two of its statements the
  statements of the other threads may run.  \<open>with self.lock\<close> goes on only when no thread
  holds the lock, and the lock is released when the \<open>with\<close> block is left, by its end or
  by an exception.  \<open>get_kpis\<close> takes no lock; the copy it makes is one step.

  Where a thread is inside \<open>log_event\<close>:
  \<open>Waiting\<close> before \<open>with self.lock\<close>, \<open>Holding\<close> before the row is written,
  \<open>Written\<close> before \<open>self.kpis['total_parts'] += 1\<close>, \<open>Totalled\<close> before the station's
  counter is incremented, \<open>Updated\<close> before the lock is released.
\<close>

datatype pc = Waiting | Holding | Written | Totalled | Updated

datatype thread_state = NotCalling | At pc log_call

record shared =
  the_logger :: DataLogger
  lock_holder :: "nat option"
  threads :: "nat \<Rightarrow> thread_state"
  snapshots :: "(string \<rightharpoonup> int) list"

datatype action =
    Call nat log_call
  | Acquire nat
  | Write nat
  | AddTotal nat
  | AddStation nat
  | Release nat
  | Snapshot

text \<open>Leaving the \<open>with\<close> block, and with it \<open>log_event\<close>.\<close>

definition leave :: "nat \<Rightarrow> shared \<Rightarrow> shared" where
  "leave i c = c\<lparr>lock_holder := None, threads := (threads c)(i := NotCalling)\<rparr>"

definition goto :: "nat \<Rightarrow> pc \<Rightarrow> log_call \<Rightarrow> shared \<Rightarrow> shared" where
  "goto i p args c = c\<lparr>threads := (threads c)(i := At p args)\<rparr>"

text \<open>One step; \<open>None\<close> when the thread is not at that statement, or waits for the lock.\<close>

fun step :: "action \<Rightarrow> shared \<Rightarrow> shared option" where
  "step (Call i args) c =
     (case threads c i of
        NotCalling \<Rightarrow> Some (goto i Waiting args c)
      | At p args' \<Rightarrow> None)"
| "step (Acquire i) c =
     (case threads c i of
        At Waiting args \<Rightarrow>
          (if lock_holder c = None then Some (goto i Holding args (c\<lparr>lock_holder := Some i\<rparr>))
           else None)
      | _ \<Rightarrow> None)"
| "step (Write i) c =
     (case threads c i of
        At Holding (env, pid, sid, act) \<Rightarrow>
          (case file_append env of
             Raises e \<Rightarrow> Some (leave i c)
           | Returns u \<Rightarrow>
               Some (goto i Written (env, pid, sid, act)
                 (c\<lparr>the_logger := (the_logger c)\<lparr>log_file := log_file (the_logger c) @
                        [[timestamp env, sid, pid, act]]\<rparr>\<rparr>)))
      | _ \<Rightarrow> None)"
| "step (AddTotal i) c =
     (case threads c i of
        At Written (env, pid, sid, act) \<Rightarrow>
          (if act = ''EXIT'' then
             (case kpi_incr ''total_parts'' (the_logger c) of
                (Returns u, lg) \<Rightarrow> Some (goto i Totalled (env, pid, sid, act) (c\<lparr>the_logger := lg\<rparr>))
              | (Raises e, lg) \<Rightarrow> Some (leave i (c\<lparr>the_logger := lg\<rparr>)))
           else Some (goto i Updated (env, pid, sid, act) c))
      | _ \<Rightarrow> None)"
| "step (AddStation i) c =
     (case threads c i of
        At Totalled (env, pid, sid, act) \<Rightarrow>
          (case (if sid = ''S1'' then kpi_incr ''station1_count''
                 else if sid = ''S2'' then kpi_incr ''station2_count''
                 else ret ()) (the_logger c) of
             (Returns u, lg) \<Rightarrow> Some (goto i Updated (env, pid, sid, act) (c\<lparr>the_logger := lg\<rparr>))
           | (Raises e, lg) \<Rightarrow> Some (leave i (c\<lparr>the_logger := lg\<rparr>)))
      | _ \<Rightarrow> None)"
| "step (Release i) c =
     (case threads c i of
        At Updated args \<Rightarrow> Some (leave i c)
      | _ \<Rightarrow> None)"
| "step Snapshot c = Some (c\<lparr>snapshots := snapshots c @ [get_kpis (the_logger c)]\<rparr>)"

text \<open>A schedule: the steps in the order they are taken.\<close>

fun exec :: "action list \<Rightarrow> shared \<Rightarrow> shared option" where
  "exec [] c = Some c"
| "exec (a # as) c = (case step a c of None \<Rightarrow> None | Some c' \<Rightarrow> exec as c')"

definition shared_init :: "string list list option \<Rightarrow> shared" where
  "shared_init existing =
     \<lparr> the_logger = DataLogger_init existing, lock_holder = None,
       threads = (\<lambda>i. NotCalling), snapshots = [] \<rparr>"

section \<open>Vocabulary of the properties\<close>

text \<open>Every call the constructor makes into the hardware libraries returns.\<close>

definition hardware_ok :: "hardware \<Rightarrow> bool" where
  "hardware_ok hw =
     (gpio_setmode hw = Returns () \<and> gpio_setwarnings hw = Returns () \<and>
      list_all (\<lambda>pin. gpio_setup hw pin = Returns ()) PI_PINS \<and>
      i2c_bus hw = Returns () \<and> mcp23017 hw = Returns () \<and>
      list_all (\<lambda>item. mcp_get_pin hw (snd item) = Returns () \<and>
                        pin_set_direction hw (snd item) = Returns () \<and>
                        pin_set_pull hw (snd item) = Returns ()) MCP_PIN_MAP)"

text \<open>The cells of a row of the log file: station id, part id and activity.\<close>

fun row_station :: "string list \<Rightarrow> string" where
  "row_station (t # s # rest) = s"
| "row_station _ = []"

fun row_part :: "string list \<Rightarrow> string" where
  "row_part (t # s # p # rest) = p"
| "row_part _ = []"

fun row_activity :: "string list \<Rightarrow> string" where
  "row_activity (t # s # p # a # rest) = a"
| "row_activity _ = []"

text \<open>
  A row that ends a transit, and a row \<open>p\<close> that begins the transit of the part of row
  \<open>r\<close>.
\<close>

definition is_terminal :: "string list \<Rightarrow> bool" where
  "is_terminal row = (row_activity row = ''EXIT'' \<or> row_activity row = ''ERROR_TIMEOUT_PROCESS''
                      \<or> row_activity row = ''ERROR_TIMEOUT_EXIT'')"

definition opens :: "string list \<Rightarrow> string list \<Rightarrow> bool" where
  "opens p r = (row_activity p = ''ENTER'' \<and> row_part p = row_part r)"

text \<open>
  Every row that ends a transit comes directly after the \<open>ENTER\<close> row of its part;
  \<open>prev\<close> is the row before the list.
\<close>

fun transits_from :: "string list option \<Rightarrow> string list list \<Rightarrow> bool" where
  "transits_from prev [] = True"
| "transits_from prev (r # rs) =
     ((is_terminal r \<longrightarrow> (case prev of None \<Rightarrow> False | Some p \<Rightarrow> opens p r)) \<and>
      transits_from (Some r) rs)"

text \<open>
  The rows with the station id of controller \<open>w0\<close> that were appended to the log file
  since \<open>w0\<close>.
\<close>

definition own_rows :: "StationController \<Rightarrow> StationController \<Rightarrow> string list list" where
  "own_rows w0 w =
     filter (\<lambda>row. row_station row = station_id w0)
       (drop (length (log_file (data_logger w0))) (log_file (data_logger w)))"

text \<open>
  What the control loop keeps true of a controller \<open>w\<close> started as \<open>w0\<close>: the counters
  are keys of the KPI dictionary, the station's rows are transits, and outside \<open>IDLE\<close>
  there is a current part whose \<open>ENTER\<close> row is the station's last row.
\<close>

definition transit_inv :: "StationController \<Rightarrow> StationController \<Rightarrow> bool" where
  "transit_inv w0 w =
     (station_id w = station_id w0 \<and>
      length (log_file (data_logger w0)) \<le> length (log_file (data_logger w)) \<and>
      kpi_keys_present (data_logger w) \<and>
      transits_from None (own_rows w0 w) \<and>
      (state w \<noteq> IDLE \<longrightarrow>
         current_part w \<noteq> None \<and> own_rows w0 w \<noteq> [] \<and>
         row_activity (last (own_rows w0 w)) = ''ENTER'' \<and>
         row_part (last (own_rows w0 w)) = part_id (parts w (the (current_part w)))))"

text \<open>
  The two advancing handlers have one shape, here with each outcome written out: the
  pins of the two stations, the state reached on a trigger and the activity logged on a
  timeout are its parameters.  Both handlers are shown equal to it below.
\<close>

definition advancing :: "env \<Rightarrow> int \<Rightarrow> int \<Rightarrow> StationState \<Rightarrow> string \<Rightarrow> (unit, StationController) prog" where
  "advancing env pin1 pin2 reached act =
     (\<lambda>w. let pin = (if station_num w = 1 then pin1 else pin2);
              w1 = w\<lparr>trace := trace w @ [SetSpeed (motor_num w) (motor_speed w)]\<rparr>;
              w2 = w\<lparr>trace := trace w @ [SetSpeed (motor_num w) (motor_speed w), WaitForPi pin 10000]\<rparr>;
              w3 = w\<lparr>trace := trace w @ [SetSpeed (motor_num w) (motor_speed w), WaitForPi pin 10000,
                                            Stop (motor_num w)]\<rparr>
          in case set_speed env (motor_num w) (motor_speed w) of
               Raises e \<Rightarrow> (Raises e, w1)
             | Returns u \<Rightarrow>
                 (case wait_for_pi env pin 10000 of
                    Raises e \<Rightarrow> (Raises e, w2)
                  | Returns sensor_triggered \<Rightarrow>
                      (case motor_stop env (motor_num w) of
                         Raises e \<Rightarrow> (Raises e, w3)
                       | Returns u \<Rightarrow>
                           if sensor_triggered then (Returns (), w3\<lparr>state := reached\<rparr>)
                           else (case log_current env act w3 of
                                   (Raises e, w4) \<Rightarrow> (Raises e, w4)
                                 | (Returns u, w4) \<Rightarrow> (Returns (), w4\<lparr>current_part := None, state := IDLE\<rparr>)))))"

text \<open>The calls of the clear-wait: polls of an exit sensor and sleeps.\<close>

definition wait_effect :: "effect \<Rightarrow> bool" where
  "wait_effect e = (case e of ReadExit n \<Rightarrow> True | Sleep d \<Rightarrow> True | _ \<Rightarrow> False)"

text \<open>The fields no state handler assigns.\<close>

definition fixed_fields ::
  "StationController \<Rightarrow> int \<times> string \<times> int \<times> int \<times> int \<times> bool \<times> bool \<times> nat option \<times> nat" where
  "fixed_fields w = (station_num w, station_id w, process_time w, motor_speed w, motor_num w,
                     running w, stop_event w, thread w, threads_started w)"

text \<open>
  The controllers reached from \<open>w0\<close> by iterations of the control loop, by log events
  of other stations on the shared data logger, and by calls of \<open>start\<close> and \<open>stop\<close>.
\<close>

inductive reachable :: "StationController \<Rightarrow> StationController \<Rightarrow> bool" for w0 where
  initial: "reachable w0 w0"
| iteration: "reachable w0 w \<Longrightarrow> reachable w0 (snd (run_iteration env w))"
| other_writer: "reachable w0 w \<Longrightarrow> call_station c \<noteq> station_id w0 \<Longrightarrow>
                 reachable w0 (w\<lparr>data_logger := log_call c (data_logger w)\<rparr>)"
| started: "reachable w0 w \<Longrightarrow> reachable w0 (start w)"
| stopped: "reachable w0 w \<Longrightarrow> reachable w0 (snd (stop r w))"

text \<open>The same, through iterations whose state handler returned without raising only.\<close>

inductive reachable_quietly :: "StationController \<Rightarrow> StationController \<Rightarrow> bool" for w0 where
  initial: "reachable_quietly w0 w0"
| iteration: "reachable_quietly w0 w \<Longrightarrow> fst (handle_state env w) = Returns () \<Longrightarrow>
              reachable_quietly w0 (snd (run_iteration env w))"
| other_writer: "reachable_quietly w0 w \<Longrightarrow>
                 reachable_quietly w0 (w\<lparr>data_logger := log_call c (data_logger w)\<rparr>)"
| started: "reachable_quietly w0 w \<Longrightarrow> reachable_quietly w0 (start w)"
| stopped: "reachable_quietly w0 w \<Longrightarrow> reachable_quietly w0 (snd (stop r w))"

text \<open>
  The number of \<open>EXIT\<close> rows that count for a key of the KPI dictionary, and what the
  thread that holds the lock has written as a row but not yet counted under that key.
\<close>

definition counts_for :: "string \<Rightarrow> string list \<Rightarrow> bool" where
  "counts_for k row =
     (row_activity row = ''EXIT'' \<and>
      (k = ''total_parts'' \<or> (k = ''station1_count'' \<and> row_station row = ''S1'') \<or>
       (k = ''station2_count'' \<and> row_station row = ''S2'')))"

definition exits :: "string \<Rightarrow> string list list \<Rightarrow> int" where
  "exits k rows = int (length (filter (counts_for k) rows))"

definition owed_by :: "thread_state \<Rightarrow> string \<Rightarrow> int" where
  "owed_by ts k =
     (case ts of
        NotCalling \<Rightarrow> 0
      | At p (env, pid, sid, act) \<Rightarrow>
          if counts_for k [timestamp env, sid, pid, act] \<and>
             (p = Written \<or> (p = Totalled \<and> k \<noteq> ''total_parts''))
          then 1 else 0)"

definition owed :: "shared \<Rightarrow> string \<Rightarrow> int" where
  "owed c k = (case lock_holder c of None \<Rightarrow> 0 | Some i \<Rightarrow> owed_by (threads c i) k)"

text \<open>The three counters \<open>_update_kpis\<close> maintains.\<close>

definition kpi_key :: "string \<Rightarrow> bool" where
  "kpi_key k = (k = ''total_parts'' \<or> k = ''station1_count'' \<or> k = ''station2_count'')"

text \<open>The counters agree with the rows appended since the logger was initialised.\<close>

definition counters_match_rows :: "nat \<Rightarrow> DataLogger \<Rightarrow> bool" where
  "counters_match_rows n0 lg =
     (kpis lg ''total_parts'' = Some (exits ''total_parts'' (drop n0 (log_file lg))) \<and>
      kpis lg ''station1_count'' = Some (exits ''station1_count'' (drop n0 (log_file lg))) \<and>
      kpis lg ''station2_count'' = Some (exits ''station2_count'' (drop n0 (log_file lg))))"

text \<open>Thread \<open>i\<close> is inside the \<open>with\<close> block.\<close>

definition holds_lock :: "shared \<Rightarrow> nat \<Rightarrow> bool" where
  "holds_lock c i = (case threads c i of NotCalling \<Rightarrow> False | At p args \<Rightarrow> p \<noteq> Waiting)"

text \<open>Only an \<open>EXIT\<close> call gets as far as the station counter.\<close>

definition counting_exit :: "thread_state \<Rightarrow> bool" where
  "counting_exit ts =
     (case ts of At Totalled (env, pid, sid, act) \<Rightarrow> act = ''EXIT'' | _ \<Rightarrow> True)"

text \<open>What every step of every thread keeps true, \<open>n0\<close> rows being in the file at the start.\<close>

definition conc_inv :: "nat \<Rightarrow> shared \<Rightarrow> bool" where
  "conc_inv n0 c =
     (n0 \<le> length (log_file (the_logger c)) \<and>
      list_all (\<lambda>row. length row = 4) (drop n0 (log_file (the_logger c))) \<and>
      (\<forall>i. holds_lock c i = (lock_holder c = Some i)) \<and>
      (\<forall>i. counting_exit (threads c i)) \<and>
      (\<forall>k. kpi_key k \<longrightarrow>
           kpis (the_logger c) k = Some (exits k (drop n0 (log_file (the_logger c))) - owed c k)))"

text \<open>The steps of one call that no other thread interrupts.\<close>

definition solo :: "nat \<Rightarrow> log_call \<Rightarrow> action list" where
  "solo i args =
     (case args of (env, pid, sid, act) \<Rightarrow>
        [Call i args, Acquire i, Write i] @
        (if file_append env = Returns () then
           [AddTotal i] @ (if act = ''EXIT'' then [AddStation i] else []) @ [Release i]
         else []))"

text \<open>The three counters of a copy of the KPI dictionary.\<close>

definition snapshot_view :: "(string \<rightharpoonup> int) \<Rightarrow> int option \<times> int option \<times> int option" where
  "snapshot_view s = (s ''total_parts'', s ''station1_count'', s ''station2_count'')"

section \<open>Concrete inputs\<close>

text \<open>Inputs at which the theorems below are instantiated.\<close>

definition ok_log_env :: log_env where
  "ok_log_env = \<lparr> timestamp = ''2025-01-01 12:00:00'', file_append = Returns () \<rparr>"

definition two_exits :: "log_call list" where
  "two_exits = [(ok_log_env, ''P1'', ''S1'', ''EXIT''), (ok_log_env, ''P2'', ''S2'', ''EXIT'')]"

definition example_config :: config where
  "example_config = \<lparr> stations = [''station1_process_time'' \<mapsto> 100],
                      motors = [''station_speed'' \<mapsto> 60] \<rparr>"

definition station1 :: StationController where
  "station1 = \<lparr> station_num = 1, station_id = ''S1'', process_time = 100, motor_speed = 60,
                motor_num = 3, state = IDLE, current_part = None, running = False,
                stop_event = False, thread = None, data_logger = DataLogger_init None,
                parts = (\<lambda>_. new_Part []), next_part = 0, threads_started = 0, trace = [] \<rparr>"

definition arrival_env :: env where
  "arrival_env = \<lparr> station1_entry = (\<lambda>k. Returns True),
                   station2_entry = (\<lambda>k. Returns False),
                   read_tag = Returns (Some ''04a1b2c3''),
                   time_ms = 1700000000123,
                   wait_for_pi = (\<lambda>pin timeout. Returns True),
                   station1_exit = (\<lambda>t. Returns (t < 600)),
                   station2_exit = (\<lambda>t. Returns False),
                   set_speed = (\<lambda>m s. Returns ()),
                   motor_stop = (\<lambda>m. Returns ()),
                   recovery_stop = (\<lambda>m. Returns ()),
                   logging = ok_log_env \<rparr>"

definition timeout_env :: env where
  "timeout_env = arrival_env\<lparr>wait_for_pi := (\<lambda>pin timeout. Returns False)\<rparr>"

definition vanishing_env :: env where
  "vanishing_env = arrival_env\<lparr>station1_entry := (\<lambda>k. Returns (k = 0))\<rparr>"

definition stuck_env :: env where
  "stuck_env = arrival_env\<lparr>station1_exit := (\<lambda>t. Returns True)\<rparr>"

definition bus_down_env :: env where
  "bus_down_env = arrival_env\<lparr>station1_entry := (\<lambda>k. Raises OSError),
                               recovery_stop := (\<lambda>m. Raises OSError)\<rparr>"

definition entered1 :: StationController where
  "entered1 = snd (run_iteration arrival_env station1)"

definition glitch_env :: env where
  "glitch_env = arrival_env\<lparr>station1_entry := (\<lambda>k. Raises OSError)\<rparr>"

definition processed1 :: StationController where
  "processed1 = snd (run_iteration arrival_env (snd (run_iteration arrival_env entered1)))"

definition at_exit1 :: StationController where
  "at_exit1 = snd (run_iteration arrival_env processed1)"

definition no_hardware :: hardware where
  "no_hardware = \<lparr> gpio_setmode = Returns (), gpio_setwarnings = Returns (),
                    gpio_setup = (\<lambda>pin. Returns ()),
                    i2c_bus = Raises (OtherError ''ValueError: No I2C device at address: 0x20''),
                    mcp23017 = Returns (), mcp_get_pin = (\<lambda>n. Returns ()),
                    pin_set_direction = (\<lambda>n. Returns ()), pin_set_pull = (\<lambda>n. Returns ()) \<rparr>"

definition torn_schedule :: "action list" where
  "torn_schedule = [Call 0 (ok_log_env, ''P1'', ''S1'', ''EXIT''), Acquire 0, Write 0, AddTotal 0, Snapshot]"

definition two_writers :: "action list" where
  "two_writers =
     [Call 0 (ok_log_env, ''P1'', ''S1'', ''EXIT''), Call 1 (ok_log_env, ''P2'', ''S2'', ''EXIT''),
      Acquire 1, Write 1, AddTotal 1, AddStation 1, Release 1,
      Acquire 0, Write 0, AddTotal 0, AddStation 0, Release 0, Snapshot]"

section \<open>Properties of the data logger\<close>

lemma DataLogger_init_sum_ok: "kpi_sum_ok (DataLogger_init existing)"
  by (simp add: kpi_sum_ok_def DataLogger_init_def)

lemma log_call_sum_ok:
  assumes "kpi_sum_ok lg" and "call_station c = ''S1'' \<or> call_station c = ''S2''"
  shows "kpi_sum_ok (log_call c lg)"
proof -
  obtain env part_id station_id activity where c: "c = (env, part_id, station_id, activity)"
    by (cases c) auto
  from assms(1) obtain t a b where
    k: "kpis lg ''total_parts'' = Some t" "kpis lg ''station1_count'' = Some a"
       "kpis lg ''station2_count'' = Some b" "t = a + b"
    by (auto simp: kpi_sum_ok_def split: option.splits)
  from assms(2) c have s: "station_id = ''S1'' \<or> station_id = ''S2''"
    by (simp add: call_station_def)
  show ?thesis
  proof (cases "file_append env")
    case (Raises e)
    then show ?thesis using assms(1) c
      by (simp add: log_call_def log_event_def seq_def bind_def call_def)
  next
    case (Returns u)
    then show ?thesis using k s c
      by (auto simp: log_call_def log_event_def seq_def bind_def call_def modify_def
          update_kpis_def kpi_incr_def ret_def kpi_sum_ok_def)
  qed
qed

lemma log_events_sum_ok:
  "kpi_sum_ok lg \<Longrightarrow> \<forall>c \<in> set cs. call_station c = ''S1'' \<or> call_station c = ''S2'' \<Longrightarrow>
   kpi_sum_ok (log_events cs lg)"
  by (induction cs arbitrary: lg) (auto simp: log_call_sum_ok)

text \<open>
  Claim C3.  Start from a freshly initialised data logger (whatever file it found) and
  run any finite sequence of \<open>log_event\<close> calls whose station id is \<open>S1\<close> or \<open>S2\<close>:
  after every prefix of the sequence, also one that ends in a call that raised, the
  three counters are present and \<open>total_parts = station1_count + station2_count\<close>.
\<close>

theorem kpi_total_is_sum_of_stations:
  assumes "\<forall>c \<in> set cs. call_station c = ''S1'' \<or> call_station c = ''S2''"
  shows "kpi_sum_ok (log_events (take n cs) (DataLogger_init existing))"
proof -
  have "\<forall>c \<in> set (take n cs). call_station c = ''S1'' \<or> call_station c = ''S2''"
    using assms by (meson in_set_takeD)
  then show ?thesis
    by (rule log_events_sum_ok [OF DataLogger_init_sum_ok])
qed

theorem kpi_total_is_sum_of_stations_witness:
  "call_station (two_exits ! 0) = ''S1'' \<and> call_station (two_exits ! 1) = ''S2'' \<and>
   kpi_sum_ok (log_events (take 2 two_exits) (DataLogger_init None)) \<and>
   kpis (log_events (take 2 two_exits) (DataLogger_init None)) ''total_parts'' = Some 2"
proof -
  have h: "\<forall>c \<in> set two_exits. call_station c = ''S1'' \<or> call_station c = ''S2''"
    by (simp add: two_exits_def call_station_def)
  have v: "kpis (log_events (take 2 two_exits) (DataLogger_init None)) ''total_parts'' = Some 2"
    by (simp add: two_exits_def ok_log_env_def log_call_def log_event_def seq_def bind_def
        call_def modify_def update_kpis_def kpi_incr_def ret_def DataLogger_init_def)
  show ?thesis
    using kpi_total_is_sum_of_stations [OF h, of 2 None] v
    by (simp add: two_exits_def call_station_def)
qed

lemma log_event_not_exit:
  "act \<noteq> ''EXIT'' \<Longrightarrow> kpis (snd (log_event env pid sid act lg)) = kpis lg"
  by (cases "file_append env")
     (simp_all add: log_event_def seq_def bind_def call_def modify_def update_kpis_def ret_def)

lemma log_event_keys:
  "kpi_keys_present lg \<Longrightarrow> kpi_keys_present (snd (log_event env pid sid act lg))"
  by (cases "file_append env")
     (auto simp: log_event_def seq_def bind_def call_def modify_def update_kpis_def ret_def
        kpi_incr_def kpi_keys_present_def split: option.splits)

lemma log_events_keys:
  "kpi_keys_present lg \<Longrightarrow> kpi_keys_present (log_events cs lg)"
  by (induction cs arbitrary: lg) (auto simp: log_call_def log_event_keys split: prod.splits)

lemma DataLogger_init_keys: "kpi_keys_present (DataLogger_init existing)"
  by (simp add: kpi_keys_present_def DataLogger_init_def)

lemma log_event_exit:
  assumes "kpi_keys_present lg" "file_append env = Returns ()"
  shows "fst (log_event env pid sid ''EXIT'' lg) = Returns () \<and>
         log_file (snd (log_event env pid sid ''EXIT'' lg)) =
           log_file lg @ [[timestamp env, sid, pid, ''EXIT'']] \<and>
         (\<forall>k. kpis (snd (log_event env pid sid ''EXIT'' lg)) k =
               map_option (\<lambda>v. v + (if k = ''total_parts'' \<or> (k = ''station1_count'' \<and> sid = ''S1'')
                                       \<or> (k = ''station2_count'' \<and> sid = ''S2'') then 1 else 0))
                 (kpis lg k))"
  using assms
  by (auto simp: log_event_def seq_def bind_def call_def modify_def update_kpis_def ret_def
        kpi_incr_def kpi_keys_present_def option.map_ident split: option.splits)

text \<open>
  Claim C5.  Take a data logger after any sequence of \<open>log_event\<close> calls since its
  initialisation, and one more call.  If the activity of the call is not \<open>EXIT\<close>, the
  KPI dictionary after it is the one before it.  If the activity is \<open>EXIT\<close> and the row
  is appended to the file, the call returns and every counter \<open>k\<close> of the dictionary has
  grown by 1 when \<open>k\<close> is \<open>total_parts\<close>, or \<open>station1_count\<close> with station id \<open>S1\<close>, or
  \<open>station2_count\<close> with station id \<open>S2\<close>, and by 0 otherwise; no key is added.
\<close>

theorem log_event_kpi_frame:
  assumes "lg = log_events cs (DataLogger_init existing)"
  shows "(act \<noteq> ''EXIT'' \<longrightarrow> kpis (snd (log_event env pid sid act lg)) = kpis lg) \<and>
         (act = ''EXIT'' \<and> file_append env = Returns () \<longrightarrow>
            fst (log_event env pid sid act lg) = Returns () \<and>
            (\<forall>k. kpis (snd (log_event env pid sid act lg)) k =
                  map_option (\<lambda>v. v + (if k = ''total_parts'' \<or> (k = ''station1_count'' \<and> sid = ''S1'')
                                          \<or> (k = ''station2_count'' \<and> sid = ''S2'') then 1 else 0))
                    (kpis lg k)))"
proof -
  have keys: "kpi_keys_present lg"
    unfolding assms by (rule log_events_keys [OF DataLogger_init_keys])
  show ?thesis
    using log_event_not_exit [of act env pid sid lg] log_event_exit [OF keys, of env pid sid]
    by blast
qed

theorem log_event_kpi_frame_witness:
  "file_append ok_log_env = Returns () \<and>
   kpis (snd (log_event ok_log_env ''P3'' ''S1'' ''EXIT'' (log_events two_exits (DataLogger_init None))))
     ''total_parts'' = Some 3 \<and>
   kpis (snd (log_event ok_log_env ''P3'' ''S1'' ''EXIT'' (log_events two_exits (DataLogger_init None))))
     ''station1_count'' = Some 2 \<and>
   kpis (snd (log_event ok_log_env ''P3'' ''S1'' ''EXIT'' (log_events two_exits (DataLogger_init None))))
     ''station2_count'' = Some 1 \<and>
   kpis (snd (log_event ok_log_env ''P3'' ''S1'' ''ENTER'' (log_events two_exits (DataLogger_init None)))) =
     kpis (log_events two_exits (DataLogger_init None))"
proof -
  have before: "kpis (log_events two_exits (DataLogger_init None)) ''total_parts'' = Some 2"
    "kpis (log_events two_exits (DataLogger_init None)) ''station1_count'' = Some 1"
    "kpis (log_events two_exits (DataLogger_init None)) ''station2_count'' = Some 1"
    by (simp_all add: two_exits_def ok_log_env_def log_call_def log_event_def seq_def bind_def
        call_def modify_def update_kpis_def kpi_incr_def ret_def DataLogger_init_def)
  have ok: "file_append ok_log_env = Returns ()"
    by (simp add: ok_log_env_def)
  show ?thesis
    using before ok
      log_event_kpi_frame [OF refl, of "''EXIT''" ok_log_env "''P3''" "''S1''" two_exits None]
      log_event_kpi_frame [OF refl, of "''ENTER''" ok_log_env "''P3''" "''S1''" two_exits None]
    by simp
qed

section \<open>Properties of the station controller\<close>

lemmas prog_defs = ret_def raise_def bind_def seq_def modify_def call_def try_except_def
  do_call_def sleep_def

lemma transits_from_snoc:
  "transits_from prev (rs @ [r]) =
     (transits_from prev rs \<and>
      (is_terminal r \<longrightarrow> (case (if rs = [] then prev else Some (last rs)) of
                              None \<Rightarrow> False | Some p \<Rightarrow> opens p r)))"
  by (induction rs arbitrary: prev) auto

lemma update_kpis_log_file: "log_file (snd (update_kpis sid act lg)) = log_file lg"
  by (simp add: update_kpis_def kpi_incr_def prog_defs split: option.splits)

lemma update_kpis_keys:
  "kpi_keys_present lg \<Longrightarrow>
   fst (update_kpis sid act lg) = Returns () \<and> kpi_keys_present (snd (update_kpis sid act lg))"
  by (auto simp: update_kpis_def kpi_incr_def prog_defs kpi_keys_present_def split: option.splits)

lemma update_kpis_not_exit: "act \<noteq> ''EXIT'' \<Longrightarrow> update_kpis sid act lg = (Returns (), lg)"
  by (simp add: update_kpis_def prog_defs)

lemma log_event_append_failed:
  "file_append env = Raises e \<Longrightarrow> log_event env pid sid act lg = (Raises e, lg)"
  by (simp add: log_event_def prog_defs)

lemma log_event_appended:
  "file_append env = Returns () \<Longrightarrow>
   log_event env pid sid act lg =
     update_kpis sid act (lg\<lparr>log_file := log_file lg @ [[timestamp env, sid, pid, act]]\<rparr>)"
  by (simp add: log_event_def prog_defs)

lemma log_event_cases:
  assumes "log_event env pid sid act lg = (res, lg')"
  obtains
    (append_failed) e where "file_append env = Raises e" "res = Raises e" "lg' = lg"
  | (logged) "file_append env = Returns ()"
      "log_file lg' = log_file lg @ [[timestamp env, sid, pid, act]]"
      "kpi_keys_present lg \<Longrightarrow> kpi_keys_present lg' \<and> res = Returns ()"
      "act \<noteq> ''EXIT'' \<Longrightarrow> kpis lg' = kpis lg \<and> res = Returns ()"
proof (cases "file_append env")
  case (Raises e)
  with assms show ?thesis
    by (intro append_failed [of e]) (simp_all add: log_event_append_failed)
next
  case (Returns u)
  let ?lg1 = "lg\<lparr>log_file := log_file lg @ [[timestamp env, sid, pid, act]]\<rparr>"
  from Returns assms have eq: "update_kpis sid act ?lg1 = (res, lg')"
    by (simp add: log_event_appended)
  have keys1: "kpi_keys_present lg \<Longrightarrow> kpi_keys_present ?lg1"
    by (simp add: kpi_keys_present_def)
  show ?thesis
  proof (rule logged)
    show "file_append env = Returns ()" using Returns by simp
    show "log_file lg' = log_file lg @ [[timestamp env, sid, pid, act]]"
      using update_kpis_log_file [of sid act ?lg1] eq by simp
    show "kpi_keys_present lg' \<and> res = Returns ()" if "kpi_keys_present lg"
      using update_kpis_keys [OF keys1 [OF that], of sid act] eq by simp
    show "kpis lg' = kpis lg \<and> res = Returns ()" if "act \<noteq> ''EXIT''"
      using update_kpis_not_exit [OF that, of sid ?lg1] eq by auto
  qed
qed

lemma log_current_cases:
  assumes "log_current env act w = (res, w')"
  obtains
    (no_part) "current_part w = None" "res = Raises AttributeError" "w' = w"
  | (append_failed) e where "file_append (logging env) = Raises e" "res = Raises e" "w' = w"
  | (logged) r lg where "current_part w = Some r" "file_append (logging env) = Returns ()"
      "w' = w\<lparr>data_logger := lg\<rparr>"
      "log_file lg = log_file (data_logger w) @
         [[timestamp (logging env), station_id w, part_id (parts w r), act]]"
      "kpi_keys_present (data_logger w) \<Longrightarrow> kpi_keys_present lg \<and> res = Returns ()"
      "act \<noteq> ''EXIT'' \<Longrightarrow> kpis lg = kpis (data_logger w) \<and> res = Returns ()"
proof (cases "current_part w")
  case None
  with assms have "res = Raises AttributeError" "w' = w"
    by (simp_all add: log_current_def)
  with None show ?thesis by (rule no_part)
next
  case (Some r)
  obtain res1 lg where le: "log_event (logging env) (part_id (parts w r)) (station_id w) act (data_logger w) = (res1, lg)"
    by (cases "log_event (logging env) (part_id (parts w r)) (station_id w) act (data_logger w)") auto
  with Some assms have rw: "res = res1" "w' = w\<lparr>data_logger := lg\<rparr>"
    by (auto simp: log_current_def)
  from le show ?thesis
  proof (cases rule: log_event_cases)
    case (append_failed e)
    show ?thesis
    proof (rule that(2) [of e])
      show "file_append (logging env) = Raises e" by (rule append_failed(1))
      show "res = Raises e" using rw append_failed by simp
      show "w' = w" using rw append_failed by simp
    qed
  next
    case logged
    show ?thesis
    proof (rule that(3) [of r lg])
      show "current_part w = Some r" by (rule Some)
      show "file_append (logging env) = Returns ()" by (rule logged(1))
      show "w' = w\<lparr>data_logger := lg\<rparr>" by (rule rw(2))
      show "log_file lg = log_file (data_logger w) @
         [[timestamp (logging env), station_id w, part_id (parts w r), act]]" by (rule logged(2))
      show "kpi_keys_present lg \<and> res = Returns ()" if "kpi_keys_present (data_logger w)"
        using logged(3) [OF that] rw by simp
      show "kpis lg = kpis (data_logger w) \<and> res = Returns ()" if "act \<noteq> ''EXIT''"
        using logged(4) [OF that] rw by simp
    qed
  qed
qed

lemma own_rows_trace [simp]: "own_rows w0 (w\<lparr>trace := t\<rparr>) = own_rows w0 w"
  by (simp add: own_rows_def)

lemma own_rows_state [simp]: "own_rows w0 (w\<lparr>state := t\<rparr>) = own_rows w0 w"
  by (simp add: own_rows_def)

lemma own_rows_current_part [simp]: "own_rows w0 (w\<lparr>current_part := t\<rparr>) = own_rows w0 w"
  by (simp add: own_rows_def)

lemma own_rows_parts [simp]: "own_rows w0 (w\<lparr>parts := t\<rparr>) = own_rows w0 w"
  by (simp add: own_rows_def)

lemma own_rows_next_part [simp]: "own_rows w0 (w\<lparr>next_part := t\<rparr>) = own_rows w0 w"
  by (simp add: own_rows_def)

lemma own_rows_logged:
  "length (log_file (data_logger w0)) \<le> length (log_file (data_logger w)) \<Longrightarrow>
   log_file lg = log_file (data_logger w) @ [row] \<Longrightarrow>
   own_rows w0 (w\<lparr>data_logger := lg\<rparr>) =
     own_rows w0 w @ (if row_station row = station_id w0 then [row] else [])"
  by (simp add: own_rows_def)

lemma state_advancing_to_process_unfold:
  "state_advancing_to_process env =
     advancing env STATION1_PROCESS STATION2_PROCESS PROCESSING ''ERROR_TIMEOUT_PROCESS''"
  by (rule ext)
     (simp add: state_advancing_to_process_def advancing_def motors_set_speed_def
        wait_for_position_def motors_stop_def prog_defs Let_def
        split: outcome.splits prod.splits)

lemma state_advancing_to_exit_unfold:
  "state_advancing_to_exit env =
     advancing env STATION1_EXIT STATION2_EXIT EXITING ''ERROR_TIMEOUT_EXIT''"
  by (rule ext)
     (simp add: state_advancing_to_exit_def advancing_def motors_set_speed_def
        wait_for_position_def motors_stop_def prog_defs Let_def
        split: outcome.splits prod.splits)

lemma advancing_cases:
  assumes run: "advancing env pin1 pin2 reached act w = (res, w')" and act: "act \<noteq> ''EXIT''"
  obtains
    (raised) e tr where "res = Raises e" "w' = w\<lparr>trace := tr\<rparr>"
  | (arrived) tr where "res = Returns ()" "w' = w\<lparr>trace := tr, state := reached\<rparr>"
  | (timed_out) tr r lg where "res = Returns ()" "current_part w = Some r"
      "w' = w\<lparr>trace := tr, data_logger := lg, current_part := None, state := IDLE\<rparr>"
      "log_file lg = log_file (data_logger w) @
         [[timestamp (logging env), station_id w, part_id (parts w r), act]]"
      "kpis lg = kpis (data_logger w)"
proof -
  define pin where "pin = (if station_num w = 1 then pin1 else pin2)"
  define w3 where "w3 = w\<lparr>trace := trace w @ [SetSpeed (motor_num w) (motor_speed w), WaitForPi pin 10000,
                                            Stop (motor_num w)]\<rparr>"
  show ?thesis
  proof (cases "set_speed env (motor_num w) (motor_speed w)")
    case (Raises e)
    with run show ?thesis
      by (intro raised [of e]) (auto simp: advancing_def Let_def)
  next
    case sp: (Returns u)
    show ?thesis
    proof (cases "wait_for_pi env pin 10000")
      case (Raises e)
      with run sp show ?thesis
        by (intro raised [of e]) (auto simp: advancing_def Let_def pin_def)
    next
      case wt: (Returns sensor_triggered)
      show ?thesis
      proof (cases "motor_stop env (motor_num w)")
        case (Raises e)
        with run sp wt show ?thesis
          by (intro raised [of e]) (auto simp: advancing_def Let_def pin_def)
      next
        case st: (Returns u')
        show ?thesis
        proof (cases sensor_triggered)
          case True
          with run sp wt st show ?thesis
            by (intro arrived) (auto simp: advancing_def Let_def pin_def)
        next
          case False
          obtain r4 w4 where lc: "log_current env act w3 = (r4, w4)"
            by (cases "log_current env act w3") auto
          from run sp wt st False lc have res:
            "(res, w') = (case r4 of Raises e \<Rightarrow> (Raises e, w4)
                          | Returns u \<Rightarrow> (Returns (), w4\<lparr>current_part := None, state := IDLE\<rparr>))"
            by (simp add: advancing_def Let_def pin_def w3_def)
          from lc show ?thesis
          proof (cases rule: log_current_cases)
            case no_part
            with res show ?thesis
              by (intro raised [of AttributeError]) (auto simp: w3_def)
          next
            case (append_failed e)
            with res show ?thesis
              by (intro raised [of e]) (auto simp: w3_def)
          next
            case (logged r lg)
            from logged(6) [OF act] have r4: "r4 = Returns ()" and k: "kpis lg = kpis (data_logger w3)"
              by simp_all
            show ?thesis
            proof (rule timed_out)
              show "res = Returns ()" using res r4 by simp
              show "current_part w = Some r" using logged(1) by (simp add: w3_def)
              show "w' = w\<lparr>trace := trace w3, data_logger := lg, current_part := None, state := IDLE\<rparr>"
                using res r4 logged(3) by (simp add: w3_def)
              show "log_file lg = log_file (data_logger w) @
                 [[timestamp (logging env), station_id w, part_id (parts w r), act]]"
                using logged(4) by (simp add: w3_def)
              show "kpis lg = kpis (data_logger w)" using k by (simp add: w3_def)
            qed
          qed
        qed
      qed
    qed
  qed
qed

lemma state_processing_cases:
  assumes run: "state_processing env w = (res, w')"
  obtains
    (raised) "process_time w < 0" "res = Raises ValueError" "w' = w"
  | (finished) "0 \<le> process_time w" "res = Returns ()"
      "w' = w\<lparr>trace := trace w @ [Sleep (process_time w)], state := ADVANCING_TO_EXIT\<rparr>"
proof (cases "process_time w < 0")
  case True
  with run have "res = Raises ValueError" "w' = w"
    by (simp_all add: state_processing_def prog_defs)
  with True show ?thesis by (rule raised)
next
  case False
  with run have "res = Returns ()"
    "w' = w\<lparr>trace := trace w @ [Sleep (process_time w)], state := ADVANCING_TO_EXIT\<rparr>"
    by (auto simp: state_processing_def prog_defs)
  with False show ?thesis by (intro finished) auto
qed

lemma state_idle_cases:
  assumes run: "state_idle env w = (res, w')"
  obtains
    (quiet) tr where "w' = w\<lparr>trace := tr\<rparr>"
  | (not_logged) e tr ident where "res = Raises e"
      "w' = w\<lparr>trace := tr, parts := (parts w)(next_part w := new_Part ident),
               current_part := Some (next_part w), next_part := Suc (next_part w)\<rparr>"
  | (entered) tr ident lg where "res = Returns ()"
      "log_file lg = log_file (data_logger w) @
         [[timestamp (logging env), station_id w, ident, ''ENTER'']]"
      "kpis lg = kpis (data_logger w)"
      "w' = w\<lparr>trace := tr, data_logger := lg,
               parts := (parts w)(next_part w :=
                  add_event (station_id w) ''ENTER'' (timestamp (logging env)) (new_Part ident)),
               current_part := Some (next_part w), next_part := Suc (next_part w),
               state := ADVANCING_TO_PROCESS\<rparr>"
proof -
  define n :: int where "n = (if station_num w = 1 then 1 else 2)"
  define first where "first = (if station_num w = 1 then station1_entry env 0 else station2_entry env 0)"
  define second where "second = (if station_num w = 1 then station1_entry env 1 else station2_entry env 1)"
  define ident where "ident = (if tag_truthy (case read_tag env of Returns t \<Rightarrow> t | Raises e \<Rightarrow> None)
     then the (case read_tag env of Returns t \<Rightarrow> t | Raises e \<Rightarrow> None)
     else ''P'' @ show_int (time_ms env mod 10000))"
  define w3 where "w3 = w\<lparr>trace := trace w @ [ReadEntry n, ReadTag 2000, ReadEntry n],
      parts := (parts w)(next_part w := new_Part ident),
      current_part := Some (next_part w), next_part := Suc (next_part w)\<rparr>"
  have early: ?thesis if "\<not> (first = Returns True \<and> (\<exists>t. read_tag env = Returns t) \<and> second = Returns True)"
  proof -
    from that run have "\<exists>tr. w' = w\<lparr>trace := tr\<rparr>"
      by (auto simp: state_idle_def entry_sensor_def prog_defs first_def second_def
          split: outcome.splits if_splits)
    then show ?thesis using quiet by blast
  qed
  show ?thesis
  proof (cases "first = Returns True \<and> (\<exists>t. read_tag env = Returns t) \<and> second = Returns True")
    case False
    then show ?thesis by (rule early)
  next
    case True
    then obtain t where t: "first = Returns True" "read_tag env = Returns t" "second = Returns True"
      by blast
    obtain r4 w4 where lc: "log_current env ''ENTER'' w3 = (r4, w4)"
      by (cases "log_current env ''ENTER'' w3") auto
    from run t lc have res:
      "(res, w') = (case r4 of Raises e \<Rightarrow> (Raises e, w4)
         | Returns u \<Rightarrow> (case part_add_event env ''ENTER'' w4 of
             (Raises e, w5) \<Rightarrow> (Raises e, w5)
           | (Returns u, w5) \<Rightarrow> (Returns (), w5\<lparr>state := ADVANCING_TO_PROCESS\<rparr>)))"
      by (auto simp: state_idle_def entry_sensor_def prog_defs first_def second_def create_part_def
          w3_def ident_def n_def split: if_splits)
    from lc show ?thesis
    proof (cases rule: log_current_cases)
      case no_part
      then show ?thesis by (simp add: w3_def)
    next
      case (append_failed e)
      show ?thesis
      proof (rule not_logged)
        show "res = Raises e" using res append_failed by simp
        show "w' = w\<lparr>trace := trace w3, parts := (parts w)(next_part w := new_Part ident),
               current_part := Some (next_part w), next_part := Suc (next_part w)\<rparr>"
          using res append_failed by (simp add: w3_def)
      qed
    next
      case (logged r lg)
      from logged(6) have r4: "r4 = Returns ()" and k: "kpis lg = kpis (data_logger w3)"
        by simp_all
      from logged(1) have r: "r = next_part w" by (simp add: w3_def)
      show ?thesis
      proof (rule entered)
        show "res = Returns ()" using res r4 logged(3) by (simp add: part_add_event_def w3_def)
        show "log_file lg = log_file (data_logger w) @
           [[timestamp (logging env), station_id w, ident, ''ENTER'']]"
          using logged(4) r by (simp add: w3_def new_Part_def)
        show "kpis lg = kpis (data_logger w)" using k by (simp add: w3_def)
        show "w' = w\<lparr>trace := trace w3, data_logger := lg,
               parts := (parts w)(next_part w :=
                  add_event (station_id w) ''ENTER'' (timestamp (logging env)) (new_Part ident)),
               current_part := Some (next_part w), next_part := Suc (next_part w),
               state := ADVANCING_TO_PROCESS\<rparr>"
          using res r4 logged(3) by (simp add: part_add_event_def w3_def)
      qed
    qed
  qed
qed

lemma exit_wait_spec:
  "\<exists>tr. snd (exit_wait s n t w) = w\<lparr>trace := trace w @ tr\<rparr> \<and> list_all wait_effect tr \<and>
        ((\<forall>u. \<exists>b. s u = Returns b) \<longrightarrow> fst (exit_wait s n t w) = Returns ())"
proof (induction "nat (5000 - t)" arbitrary: t w rule: less_induct)
  case less
  show ?case
  proof (cases "t < 5000")
    case False
    then have "exit_wait s n t w = (Returns (), w\<lparr>trace := trace w @ []\<rparr>)"
      by (simp add: exit_wait.simps)
    then show ?thesis by (intro exI [of _ "[]"]) simp
  next
    case True
    let ?w2 = "w\<lparr>trace := trace w @ [ReadExit n, Sleep 100]\<rparr>"
    from True have "nat (5000 - (t + 100)) < nat (5000 - t)" by simp
    from less [OF this, of ?w2]
    obtain tr where tr: "snd (exit_wait s n (t + 100) ?w2) = ?w2\<lparr>trace := trace ?w2 @ tr\<rparr>"
      "list_all wait_effect tr"
      "(\<forall>u. \<exists>b. s u = Returns b) \<longrightarrow> fst (exit_wait s n (t + 100) ?w2) = Returns ()"
      by auto
    show ?thesis
    proof (cases "s t")
      case (Raises e)
      with True have "exit_wait s n t w = (Raises e, w\<lparr>trace := trace w @ [ReadExit n]\<rparr>)"
        by (subst exit_wait.simps) (simp add: prog_defs)
      moreover from Raises have "\<not> (\<forall>u. \<exists>b. s u = Returns b)"
        by (auto intro!: exI [of _ t])
      ultimately show ?thesis
        by (intro exI [of _ "[ReadExit n]"]) (simp add: wait_effect_def)
    next
      case (Returns level)
      show ?thesis
      proof (cases level)
        case False
        with True Returns have
          "exit_wait s n t w = (Returns (), w\<lparr>trace := trace w @ [ReadExit n, Sleep 500]\<rparr>)"
          by (subst exit_wait.simps) (simp add: prog_defs)
        then show ?thesis
          by (intro exI [of _ "[ReadExit n, Sleep 500]"]) (simp add: wait_effect_def)
      next
        case lv: True
        with True Returns have "exit_wait s n t w = exit_wait s n (t + 100) ?w2"
          by (subst exit_wait.simps) (simp add: prog_defs)
        with tr show ?thesis
          by (intro exI [of _ "[ReadExit n, Sleep 100] @ tr"]) (simp add: wait_effect_def)
      qed
    qed
  qed
qed

lemma exit_wait_result:
  obtains r tr where "exit_wait s n t w = (r, w\<lparr>trace := trace w @ tr\<rparr>)" "list_all wait_effect tr"
    "(\<forall>u. \<exists>b. s u = Returns b) \<Longrightarrow> r = Returns ()"
proof -
  from exit_wait_spec [of s n t w] obtain tr where
    tr: "snd (exit_wait s n t w) = w\<lparr>trace := trace w @ tr\<rparr>" "list_all wait_effect tr"
    "(\<forall>u. \<exists>b. s u = Returns b) \<longrightarrow> fst (exit_wait s n t w) = Returns ()"
    by blast
  show ?thesis
  proof (rule that [of "fst (exit_wait s n t w)" tr])
    show "exit_wait s n t w = (fst (exit_wait s n t w), w\<lparr>trace := trace w @ tr\<rparr>)"
      using tr(1) by (metis prod.collapse)
    show "list_all wait_effect tr" by (rule tr(2))
    show "fst (exit_wait s n t w) = Returns ()" if "\<forall>u. \<exists>b. s u = Returns b"
      using tr(3) that by blast
  qed
qed

lemma state_exiting_cases:
  assumes run: "state_exiting env w = (res, w')"
  obtains
    (raised) e tr where "res = Raises e" "w' = w\<lparr>trace := tr\<rparr>"
  | (no_part) tr where "res = Returns ()" "current_part w = None"
      "w' = w\<lparr>trace := tr, current_part := None, state := IDLE\<rparr>"
  | (key_error) e tr lg where "res = Raises e" "\<not> kpi_keys_present (data_logger w)"
      "w' = w\<lparr>trace := tr, data_logger := lg\<rparr>"
  | (exited) tr r lg where "res = Returns ()" "current_part w = Some r"
      "log_file lg = log_file (data_logger w) @
         [[timestamp (logging env), station_id w, part_id (parts w r), ''EXIT'']]"
      "kpi_keys_present (data_logger w) \<Longrightarrow> kpi_keys_present lg"
      "w' = w\<lparr>trace := tr, data_logger := lg,
               parts := (parts w)(r := add_event (station_id w) ''EXIT'' (timestamp (logging env)) (parts w r)),
               current_part := None, state := IDLE\<rparr>"
proof -
  define w1 where "w1 = w\<lparr>trace := trace w @ [SetSpeed (motor_num w) (motor_speed w)]\<rparr>"
  define sensor where "sensor = (if station_num w = 1 then station1_exit env else station2_exit env)"
  define n :: int where "n = (if station_num w = 1 then 1 else 2)"
  obtain r2 tr2 where ew: "exit_wait sensor n 0 w1 = (r2, w1\<lparr>trace := trace w1 @ tr2\<rparr>)"
    by (rule exit_wait_result [of sensor n 0 w1])
  define w2 where "w2 = w1\<lparr>trace := trace w1 @ tr2\<rparr>"
  define w3 where "w3 = w2\<lparr>trace := trace w2 @ [Stop (motor_num w)]\<rparr>"
  have sel: "(if station_num w = 1 then exit_wait (station1_exit env) 1 0 w1
              else exit_wait (station2_exit env) 2 0 w1) = (r2, w2)"
    using ew by (cases "station_num w = 1") (simp_all add: sensor_def n_def w2_def)
  have a: "motors_set_speed env w = (set_speed env (motor_num w) (motor_speed w), w1)"
    by (simp add: motors_set_speed_def do_call_def w1_def)
  have b: "motors_stop env w2 = (motor_stop env (motor_num w), w3)"
    by (simp add: motors_stop_def do_call_def w3_def w2_def w1_def)
  have c: "station_num w1 = station_num w" "current_part w3 = current_part w"
    by (simp_all add: w1_def w2_def w3_def)
  note steps = a b c sel modify_def ret_def part_add_event_def
  note run' = run [unfolded state_exiting_def seq_def]
  show ?thesis
  proof (cases "set_speed env (motor_num w) (motor_speed w)")
    case (Raises e)
    with run' have "res = Raises e" "w' = w1"
      by (auto simp: bind_def steps)
    then show ?thesis
      by (intro raised [of e "trace w1"]) (simp_all add: w1_def)
  next
    case sp: (Returns u)
    show ?thesis
    proof (cases r2)
      case (Raises e)
      with run' sp have "res = Raises e" "w' = w2"
        by (auto simp: bind_def steps)
      then show ?thesis
        by (intro raised [of e "trace w2"]) (simp_all add: w2_def w1_def)
    next
      case wt: (Returns u2)
      show ?thesis
      proof (cases "motor_stop env (motor_num w)")
        case (Raises e)
        with run' sp wt have "res = Raises e" "w' = w3"
          by (auto simp: bind_def steps)
        then show ?thesis
          by (intro raised [of e "trace w3"]) (simp_all add: w3_def w2_def w1_def)
      next
        case st: (Returns u3)
        show ?thesis
        proof (cases "current_part w")
          case None
          with run' sp wt st have "res = Returns ()" "w' = w3\<lparr>current_part := None, state := IDLE\<rparr>"
            by (auto simp: bind_def steps)
          with None show ?thesis
            by (intro no_part [of "trace w3"]) (simp_all add: w3_def w2_def w1_def)
        next
          case (Some r)
          obtain r4 w4 where lc: "log_current env ''EXIT'' w3 = (r4, w4)"
            by (cases "log_current env ''EXIT'' w3") auto
          from run' sp wt st Some lc have res:
            "(res, w') = (case r4 of Raises e \<Rightarrow> (Raises e, w4)
               | Returns u \<Rightarrow> (case current_part w4 of
                   None \<Rightarrow> (Raises AttributeError, w4)
                 | Some r \<Rightarrow> (Returns (), w4\<lparr>parts := (parts w4)(r := add_event (station_id w4) ''EXIT''
                      (timestamp (logging env)) (parts w4 r)), current_part := None, state := IDLE\<rparr>)))"
            by (cases r4) (auto simp: bind_def steps split: option.splits)
          from lc show ?thesis
          proof (cases rule: log_current_cases)
            case no_part
            with Some show ?thesis by (simp add: w3_def w2_def w1_def)
          next
            case (append_failed e)
            with res show ?thesis
              by (intro raised [of e]) (auto simp: w3_def w2_def w1_def)
          next
            case (logged r' lg)
            from logged(1) Some have r': "r' = r" by (simp add: w3_def w2_def w1_def)
            show ?thesis
            proof (cases r4)
              case (Raises e)
              show ?thesis
              proof (rule key_error)
                show "res = Raises e" using res Raises by simp
                show "\<not> kpi_keys_present (data_logger w)"
                  using logged(5) Raises by (auto simp: w3_def w2_def w1_def)
                show "w' = w\<lparr>trace := trace w3, data_logger := lg\<rparr>"
                  using res Raises logged(3) by (simp add: w3_def w2_def w1_def)
              qed
            next
              case (Returns u4)
              show ?thesis
              proof (rule exited)
                show "res = Returns ()"
                  using res Returns logged(3) Some by (simp add: w3_def w2_def w1_def)
                show "current_part w = Some r" by (rule Some)
                show "log_file lg = log_file (data_logger w) @
                   [[timestamp (logging env), station_id w, part_id (parts w r), ''EXIT'']]"
                  using logged(4) r' by (simp add: w3_def w2_def w1_def)
                show "kpi_keys_present lg" if "kpi_keys_present (data_logger w)"
                  using logged(5) that by (simp add: w3_def w2_def w1_def)
                show "w' = w\<lparr>trace := trace w3, data_logger := lg,
                   parts := (parts w)(r := add_event (station_id w) ''EXIT'' (timestamp (logging env)) (parts w r)),
                   current_part := None, state := IDLE\<rparr>"
                  using res Returns logged(3) Some
                  by (simp add: w3_def w2_def w1_def)
              qed
            qed
          qed
        qed
      qed
    qed
  qed
qed

lemma handle_state_fixed:
  assumes "handle_state env w = (res, w')"
  shows "fixed_fields w' = fixed_fields w"
proof (cases "state w")
  case IDLE
  with assms have "state_idle env w = (res, w')" by (simp add: handle_state_def)
  then show ?thesis by (cases rule: state_idle_cases) (simp_all add: fixed_fields_def)
next
  case ADVANCING_TO_PROCESS
  with assms have "advancing env STATION1_PROCESS STATION2_PROCESS PROCESSING ''ERROR_TIMEOUT_PROCESS'' w = (res, w')"
    by (simp add: handle_state_def state_advancing_to_process_unfold)
  then show ?thesis by (cases rule: advancing_cases) (simp_all add: fixed_fields_def)
next
  case PROCESSING
  with assms have "state_processing env w = (res, w')" by (simp add: handle_state_def)
  then show ?thesis by (cases rule: state_processing_cases) (simp_all add: fixed_fields_def)
next
  case ADVANCING_TO_EXIT
  with assms have "advancing env STATION1_EXIT STATION2_EXIT EXITING ''ERROR_TIMEOUT_EXIT'' w = (res, w')"
    by (simp add: handle_state_def state_advancing_to_exit_unfold)
  then show ?thesis by (cases rule: advancing_cases) (simp_all add: fixed_fields_def)
next
  case EXITING
  with assms have "state_exiting env w = (res, w')" by (simp add: handle_state_def)
  then show ?thesis by (cases rule: state_exiting_cases) (simp_all add: fixed_fields_def)
qed

lemma handle_state_raises:
  assumes "handle_state env w = (Raises e, w')"
  shows "state w' = state w"
proof (cases "state w")
  case IDLE
  with assms have "state_idle env w = (Raises e, w')" by (simp add: handle_state_def)
  then show ?thesis by (cases rule: state_idle_cases) simp_all
next
  case ADVANCING_TO_PROCESS
  with assms have "advancing env STATION1_PROCESS STATION2_PROCESS PROCESSING ''ERROR_TIMEOUT_PROCESS'' w = (Raises e, w')"
    by (simp add: handle_state_def state_advancing_to_process_unfold)
  then show ?thesis by (cases rule: advancing_cases) simp_all
next
  case PROCESSING
  with assms have "state_processing env w = (Raises e, w')" by (simp add: handle_state_def)
  then show ?thesis by (cases rule: state_processing_cases) simp_all
next
  case ADVANCING_TO_EXIT
  with assms have "advancing env STATION1_EXIT STATION2_EXIT EXITING ''ERROR_TIMEOUT_EXIT'' w = (Raises e, w')"
    by (simp add: handle_state_def state_advancing_to_exit_unfold)
  then show ?thesis by (cases rule: advancing_cases) simp_all
next
  case EXITING
  with assms have "state_exiting env w = (Raises e, w')" by (simp add: handle_state_def)
  then show ?thesis by (cases rule: state_exiting_cases) simp_all
qed

lemma handle_state_part_iff_idle:
  assumes "handle_state env w = (Returns (), w')" and "(current_part w = None) = (state w = IDLE)"
  shows "(current_part w' = None) = (state w' = IDLE)"
proof (cases "state w")
  case IDLE
  with assms have "state_idle env w = (Returns (), w')" by (simp add: handle_state_def)
  then show ?thesis by (cases rule: state_idle_cases) (use assms(2) in simp_all)
next
  case ADVANCING_TO_PROCESS
  with assms have "advancing env STATION1_PROCESS STATION2_PROCESS PROCESSING ''ERROR_TIMEOUT_PROCESS'' w = (Returns (), w')"
    by (simp add: handle_state_def state_advancing_to_process_unfold)
  then show ?thesis by (cases rule: advancing_cases) (use assms(2) ADVANCING_TO_PROCESS in simp_all)
next
  case PROCESSING
  with assms have "state_processing env w = (Returns (), w')" by (simp add: handle_state_def)
  then show ?thesis by (cases rule: state_processing_cases) (use assms(2) PROCESSING in simp_all)
next
  case ADVANCING_TO_EXIT
  with assms have "advancing env STATION1_EXIT STATION2_EXIT EXITING ''ERROR_TIMEOUT_EXIT'' w = (Returns (), w')"
    by (simp add: handle_state_def state_advancing_to_exit_unfold)
  then show ?thesis by (cases rule: advancing_cases) (use assms(2) ADVANCING_TO_EXIT in simp_all)
next
  case EXITING
  with assms have "state_exiting env w = (Returns (), w')" by (simp add: handle_state_def)
  then show ?thesis by (cases rule: state_exiting_cases) simp_all
qed

lemma transit_inv_quiet:
  "transit_inv w0 w \<Longrightarrow> transit_inv w0 (w\<lparr>trace := tr\<rparr>)"
  by (simp add: transit_inv_def)

lemma transit_inv_logged:
  assumes inv: "transit_inv w0 w"
    and lg: "log_file lg = log_file (data_logger w) @ [[ts, station_id w, pid, act]]"
    and keys: "kpi_keys_present lg"
  shows "station_id (w\<lparr>data_logger := lg\<rparr>) = station_id w0"
    and "length (log_file (data_logger w0)) \<le> length (log_file (data_logger (w\<lparr>data_logger := lg\<rparr>)))"
    and "kpi_keys_present (data_logger (w\<lparr>data_logger := lg\<rparr>))"
    and "own_rows w0 (w\<lparr>data_logger := lg\<rparr>) = own_rows w0 w @ [[ts, station_id w, pid, act]]"
    and "(case (if own_rows w0 w = [] then None else Some (last (own_rows w0 w))) of
            None \<Rightarrow> \<not> is_terminal [ts, station_id w, pid, act]
          | Some p \<Rightarrow> is_terminal [ts, station_id w, pid, act] \<longrightarrow> opens p [ts, station_id w, pid, act]) \<Longrightarrow>
         transits_from None (own_rows w0 (w\<lparr>data_logger := lg\<rparr>))"
proof -
  from inv have sid: "station_id w = station_id w0"
    and len: "length (log_file (data_logger w0)) \<le> length (log_file (data_logger w))"
    and tr: "transits_from None (own_rows w0 w)"
    by (simp_all add: transit_inv_def)
  show "station_id (w\<lparr>data_logger := lg\<rparr>) = station_id w0" using sid by simp
  show "length (log_file (data_logger w0)) \<le> length (log_file (data_logger (w\<lparr>data_logger := lg\<rparr>)))"
    using len lg by simp
  show "kpi_keys_present (data_logger (w\<lparr>data_logger := lg\<rparr>))" using keys by simp
  show rows: "own_rows w0 (w\<lparr>data_logger := lg\<rparr>) = own_rows w0 w @ [[ts, station_id w, pid, act]]"
    using own_rows_logged [OF len lg] sid by simp
  show "transits_from None (own_rows w0 (w\<lparr>data_logger := lg\<rparr>))"
    if "(case (if own_rows w0 w = [] then None else Some (last (own_rows w0 w))) of
            None \<Rightarrow> \<not> is_terminal [ts, station_id w, pid, act]
          | Some p \<Rightarrow> is_terminal [ts, station_id w, pid, act] \<longrightarrow> opens p [ts, station_id w, pid, act])"
    using that tr unfolding rows transits_from_snoc by (auto split: if_splits)
qed

lemma handle_state_transit_inv:
  assumes run: "handle_state env w = (res, w')" and inv: "transit_inv w0 w"
  shows "transit_inv w0 w'"
proof -
  from inv have sid: "station_id w = station_id w0"
    and keys: "kpi_keys_present (data_logger w)"
    and tr: "transits_from None (own_rows w0 w)"
    and busy: "state w \<noteq> IDLE \<Longrightarrow> current_part w \<noteq> None \<and> own_rows w0 w \<noteq> [] \<and>
         row_activity (last (own_rows w0 w)) = ''ENTER'' \<and>
         row_part (last (own_rows w0 w)) = part_id (parts w (the (current_part w)))"
    by (simp_all add: transit_inv_def)
  have close_transit: "transit_inv w0 (w\<lparr>trace := t, data_logger := lg, current_part := None, state := IDLE\<rparr>)"
    if "state w \<noteq> IDLE" "current_part w = Some r"
      "log_file lg = log_file (data_logger w) @ [[ts, station_id w, part_id (parts w r), act]]"
      "kpi_keys_present lg" for t lg r ts act
  proof -
    note l = transit_inv_logged [OF inv that(3) that(4)]
    have "transits_from None (own_rows w0 (w\<lparr>data_logger := lg\<rparr>))"
      using busy [OF that(1)] that(2) by (intro l(5)) (simp add: opens_def)
    then show ?thesis using l(1-4) by (simp add: transit_inv_def own_rows_def)
  qed
  show ?thesis
  proof (cases "state w")
    case IDLE
    with run have "state_idle env w = (res, w')" by (simp add: handle_state_def)
    then show ?thesis
    proof (cases rule: state_idle_cases)
      case (quiet tr)
      then show ?thesis using inv by (simp add: transit_inv_quiet)
    next
      case (not_logged e tr ident)
      then show ?thesis using inv IDLE by (simp add: transit_inv_def own_rows_def)
    next
      case (entered tr ident lg)
      have k: "kpi_keys_present lg" using keys entered(3) by (simp add: kpi_keys_present_def)
      note l = transit_inv_logged [OF inv entered(2) k]
      have "transits_from None (own_rows w0 (w\<lparr>data_logger := lg\<rparr>))"
        by (intro l(5)) (simp add: is_terminal_def)
      then show ?thesis using l(1-4) entered(4)
        by (simp add: transit_inv_def own_rows_def add_event_def new_Part_def)
    qed
  next
    case ADVANCING_TO_PROCESS
    with run have "advancing env STATION1_PROCESS STATION2_PROCESS PROCESSING ''ERROR_TIMEOUT_PROCESS'' w = (res, w')"
      by (simp add: handle_state_def state_advancing_to_process_unfold)
    moreover have "''ERROR_TIMEOUT_PROCESS'' \<noteq> ''EXIT''" by simp
    ultimately show ?thesis
    proof (cases rule: advancing_cases)
      case (raised e tr)
      then show ?thesis using inv by (simp add: transit_inv_quiet)
    next
      case (arrived tr)
      then show ?thesis using inv ADVANCING_TO_PROCESS by (simp add: transit_inv_def own_rows_def)
    next
      case (timed_out tr r lg)
      have "kpi_keys_present lg" using keys timed_out(5) by (simp add: kpi_keys_present_def)
      with ADVANCING_TO_PROCESS timed_out show ?thesis
        by (simp add: close_transit)
    qed
  next
    case PROCESSING
    with run have "state_processing env w = (res, w')" by (simp add: handle_state_def)
    then show ?thesis
      by (cases rule: state_processing_cases)
         (use inv PROCESSING in \<open>simp_all add: transit_inv_def own_rows_def\<close>)
  next
    case ADVANCING_TO_EXIT
    with run have "advancing env STATION1_EXIT STATION2_EXIT EXITING ''ERROR_TIMEOUT_EXIT'' w = (res, w')"
      by (simp add: handle_state_def state_advancing_to_exit_unfold)
    moreover have "''ERROR_TIMEOUT_EXIT'' \<noteq> ''EXIT''" by simp
    ultimately show ?thesis
    proof (cases rule: advancing_cases)
      case (raised e tr)
      then show ?thesis using inv by (simp add: transit_inv_quiet)
    next
      case (arrived tr)
      then show ?thesis using inv ADVANCING_TO_EXIT by (simp add: transit_inv_def own_rows_def)
    next
      case (timed_out tr r lg)
      have "kpi_keys_present lg" using keys timed_out(5) by (simp add: kpi_keys_present_def)
      with ADVANCING_TO_EXIT timed_out show ?thesis
        by (simp add: close_transit)
    qed
  next
    case EXITING
    with run have "state_exiting env w = (res, w')" by (simp add: handle_state_def)
    then show ?thesis
    proof (cases rule: state_exiting_cases)
      case (raised e tr)
      then show ?thesis using inv by (simp add: transit_inv_quiet)
    next
      case (no_part tr)
      then show ?thesis using busy EXITING by simp
    next
      case (key_error e tr lg)
      then show ?thesis using keys by simp
    next
      case (exited tr r lg)
      have "transit_inv w0 (w\<lparr>trace := tr, data_logger := lg, current_part := None, state := IDLE\<rparr>)"
        using EXITING exited keys
        by (intro close_transit)
          simp_all
      then show ?thesis using exited(5) by (simp add: transit_inv_def own_rows_def)
    qed
  qed
qed

lemma run_iteration_unfold:
  "run_iteration env w =
     (case handle_state env w of
        (Returns u, w1) \<Rightarrow> (Returns (), w1\<lparr>trace := trace w1 @ [Sleep 50]\<rparr>)
      | (Raises e, w1) \<Rightarrow>
          (case recovery_stop env (motor_num w1) of
             Returns u \<Rightarrow> (Returns (), w1\<lparr>trace := trace w1 @ [Stop (motor_num w1), Sleep 1000]\<rparr>)
           | Raises e' \<Rightarrow> (Raises e', w1\<lparr>trace := trace w1 @ [Stop (motor_num w1)]\<rparr>)))"
  by (cases "handle_state env w")
     (simp add: run_iteration_def prog_defs split: outcome.splits)

lemma run_iteration_frame:
  "\<exists>tr. snd (run_iteration env w) = (snd (handle_state env w))\<lparr>trace := tr\<rparr>"
  by (cases "handle_state env w")
     (auto simp: run_iteration_unfold split: outcome.splits)

lemma stop_frame:
  "\<exists>tr a b. snd (stop r w) = w\<lparr>trace := tr, running := a, stop_event := b\<rparr>"
proof -
  have "snd (stop r w) = w\<lparr>trace := trace (snd (stop r w)), running := running (snd (stop r w)),
                            stop_event := stop_event (snd (stop r w))\<rparr>"
    by (cases r; cases "thread w"; cases "running w") (simp_all add: stop_def prog_defs)
  then show ?thesis by blast
qed

lemma transit_inv_lifecycle:
  "transit_inv w0 w \<Longrightarrow> transit_inv w0 (w\<lparr>trace := tr, running := a, stop_event := b\<rparr>)"
  "transit_inv w0 w \<Longrightarrow> transit_inv w0 (start w)"
  by (simp_all add: transit_inv_def own_rows_def start_def)

lemma transit_inv_other_writer:
  assumes inv: "transit_inv w0 w" and other: "call_station c \<noteq> station_id w0"
  shows "transit_inv w0 (w\<lparr>data_logger := log_call c (data_logger w)\<rparr>)"
proof -
  obtain env pid sid act where c: "c = (env, pid, sid, act)" by (cases c) auto
  with other have sid: "sid \<noteq> station_id w0" by (simp add: call_station_def)
  obtain res lg where le: "log_event env pid sid act (data_logger w) = (res, lg)"
    by (cases "log_event env pid sid act (data_logger w)") auto
  with c have lc: "log_call c (data_logger w) = lg" by (simp add: log_call_def)
  from inv have len: "length (log_file (data_logger w0)) \<le> length (log_file (data_logger w))"
    and keys: "kpi_keys_present (data_logger w)"
    by (simp_all add: transit_inv_def)
  from le show ?thesis
  proof (cases rule: log_event_cases)
    case (append_failed e)
    with inv lc show ?thesis by (simp add: transit_inv_def own_rows_def)
  next
    case logged
    have "own_rows w0 (w\<lparr>data_logger := lg\<rparr>) = own_rows w0 w"
      using own_rows_logged [OF len logged(2)] sid by simp
    with inv logged(2) logged(3) [OF keys] lc show ?thesis by (simp add: transit_inv_def)
  qed
qed

lemma init_fields:
  assumes "StationController_init n lg cfg = Inr w0"
  shows "state w0 = IDLE" "current_part w0 = None" "data_logger w0 = lg" "running w0 = False"
  using assms by (auto simp: StationController_init_def split: option.splits)

lemma transit_inv_initial:
  assumes "StationController_init n (log_events cs (DataLogger_init existing)) cfg = Inr w0"
  shows "transit_inv w0 w0"
  using init_fields [OF assms] log_events_keys [OF DataLogger_init_keys, of cs existing]
  by (simp add: transit_inv_def own_rows_def)

lemma reachable_transit_inv:
  assumes "StationController_init n (log_events cs (DataLogger_init existing)) cfg = Inr w0"
    and "reachable w0 w"
  shows "transit_inv w0 w"
  using assms(2)
proof (induction rule: reachable.induct)
  case initial
  show ?case by (rule transit_inv_initial [OF assms(1)])
next
  case (iteration w env)
  obtain res w1 where h: "handle_state env w = (res, w1)" by (cases "handle_state env w") auto
  from run_iteration_frame [of env w] h obtain tr where "snd (run_iteration env w) = w1\<lparr>trace := tr\<rparr>"
    by auto
  with handle_state_transit_inv [OF h iteration.IH] show ?case
    by (simp add: transit_inv_quiet)
next
  case (other_writer w c)
  then show ?case by (simp add: transit_inv_other_writer)
next
  case (started w)
  then show ?case by (simp add: transit_inv_lifecycle)
next
  case (stopped w r)
  from stop_frame [of r w] obtain tr a b where "snd (stop r w) = w\<lparr>trace := tr, running := a, stop_event := b\<rparr>"
    by blast
  with stopped.IH show ?case by (simp add: transit_inv_lifecycle)
qed

lemma reachable_quietly_part_iff_idle:
  assumes "StationController_init n lg cfg = Inr w0" and "reachable_quietly w0 w"
  shows "(current_part w = None) = (state w = IDLE)"
  using assms(2)
proof (induction rule: reachable_quietly.induct)
  case initial
  show ?case using init_fields [OF assms(1)] by simp
next
  case (iteration w env)
  obtain w1 where h: "handle_state env w = (Returns (), w1)"
    using iteration.hyps(2) by (cases "handle_state env w") auto
  from run_iteration_frame [of env w] h obtain tr where "snd (run_iteration env w) = w1\<lparr>trace := tr\<rparr>"
    by auto
  with handle_state_part_iff_idle [OF h iteration.IH] show ?case by simp
next
  case (other_writer w c)
  then show ?case by simp
next
  case (started w)
  then show ?case by (simp add: start_def)
next
  case (stopped w r)
  from stop_frame [of r w] obtain tr a b where "snd (stop r w) = w\<lparr>trace := tr, running := a, stop_event := b\<rparr>"
    by blast
  with stopped.IH show ?case by simp
qed

lemma show_int_1: "show_int 1 = ''1''"
  by code_simp

lemma station1_init:
  "StationController_init 1 (log_events [] (DataLogger_init None)) example_config = Inr station1"
  by (simp add: StationController_init_def example_config_def station1_def show_int_1)

lemmas handler_defs = handle_state_def state_idle_def state_advancing_to_process_def
  state_processing_def state_advancing_to_exit_def state_exiting_def entry_sensor_def
  motors_set_speed_def motors_stop_def wait_for_position_def create_part_def log_current_def
  part_add_event_def tag_truthy_def run_iteration_def log_event_def update_kpis_def kpi_incr_def

lemmas env_defs = arrival_env_def timeout_env_def vanishing_env_def stuck_env_def bus_down_env_def
  ok_log_env_def

lemma entered1_fields:
  "state entered1 = ADVANCING_TO_PROCESS" "current_part entered1 = Some 0"
  "station_num entered1 = 1" "motor_num entered1 = 3" "motor_speed entered1 = 60"
  "log_file (data_logger entered1) = [csv_header, [''2025-01-01 12:00:00'', ''S1'', ''04a1b2c3'', ''ENTER'']]"
  "part_id (parts entered1 0) = ''04a1b2c3''"
  "fst (handle_state arrival_env station1) = Returns ()"
  "station_id entered1 = ''S1''"
  by (simp_all add: entered1_def station1_def handler_defs env_defs prog_defs DataLogger_init_def
      create_csv_def new_Part_def add_event_def)

text \<open>
  Claim C6.  In state \<open>IDLE\<close>, when the first read of the station's entry sensor returns
  true, the tag read returns (with a tag or without) and the second read of the entry
  sensor returns false, the handler returns normally and leaves the controller as it
  was but for the record of these three calls: nothing is appended to the log file, no
  KPI counter changes, the state is still \<open>IDLE\<close> and \<open>current_part\<close> is what it was.
\<close>

theorem idle_discards_vanished_part:
  assumes "state w = IDLE"
    and "(if station_num w = 1 then station1_entry env 0 else station2_entry env 0) = Returns True"
    and "read_tag env = Returns tag"
    and "(if station_num w = 1 then station1_entry env 1 else station2_entry env 1) = Returns False"
  shows "handle_state env w =
           (Returns (), w\<lparr>trace := trace w @ [ReadEntry (if station_num w = 1 then 1 else 2), ReadTag 2000,
                                                 ReadEntry (if station_num w = 1 then 1 else 2)]\<rparr>) \<and>
         log_file (data_logger (snd (handle_state env w))) = log_file (data_logger w) \<and>
         kpis (data_logger (snd (handle_state env w))) = kpis (data_logger w) \<and>
         state (snd (handle_state env w)) = IDLE \<and>
         current_part (snd (handle_state env w)) = current_part w"
proof -
  have "state_idle env w =
          (Returns (), w\<lparr>trace := trace w @ [ReadEntry (if station_num w = 1 then 1 else 2), ReadTag 2000,
                                                ReadEntry (if station_num w = 1 then 1 else 2)]\<rparr>)"
    using assms(2-4)
    by (auto simp: state_idle_def entry_sensor_def prog_defs split: if_splits)
  with assms(1) show ?thesis by (simp add: handle_state_def)
qed

theorem idle_discards_vanished_part_witness:
  "state station1 = IDLE \<and>
   station1_entry vanishing_env 0 = Returns True \<and>
   read_tag vanishing_env = Returns (Some ''04a1b2c3'') \<and>
   station1_entry vanishing_env 1 = Returns False \<and>
   handle_state vanishing_env station1 =
     (Returns (), station1\<lparr>trace := [ReadEntry 1, ReadTag 2000, ReadEntry 1]\<rparr>) \<and>
   log_file (data_logger (snd (handle_state vanishing_env station1))) = [csv_header]"
proof -
  have h: "state station1 = IDLE"
    "(if station_num station1 = 1 then station1_entry vanishing_env 0 else station2_entry vanishing_env 0) = Returns True"
    "read_tag vanishing_env = Returns (Some ''04a1b2c3'')"
    "(if station_num station1 = 1 then station1_entry vanishing_env 1 else station2_entry vanishing_env 1) = Returns False"
    by (simp_all add: station1_def env_defs)
  show ?thesis
    using idle_discards_vanished_part [OF h] h
    by (simp add: station1_def env_defs DataLogger_init_def create_csv_def)
qed

text \<open>
  Claim C9.  \<open>start\<close> on a running controller changes nothing, so a second \<open>start\<close>
  leaves what the first one left and starts no further thread (two calls start at most
  one thread; on a new controller exactly one).  \<open>stop\<close> on a controller that is not
  running returns at once and changes nothing: so it does after an earlier \<open>stop\<close>,
  whatever that one's motor call did, and on a controller fresh from \<open>__init__\<close>.
\<close>

theorem start_stop_idempotent:
  "start (start w) = start w \<and>
   (running w \<longrightarrow> start w = w) \<and>
   threads_started (start (start w)) \<le> Suc (threads_started w) \<and>
   (\<not> running w \<longrightarrow> stop r w = (Returns (), w)) \<and>
   stop r (snd (stop r' w)) = (Returns (), snd (stop r' w)) \<and>
   (StationController_init n lg cfg = Inr w \<longrightarrow>
      stop r w = (Returns (), w) \<and> threads_started (start (start w)) = 1)"
proof -
  have "stop r (snd (stop r' w)) = (Returns (), snd (stop r' w))"
    by (cases r'; cases "thread w") (simp_all add: stop_def prog_defs)
  moreover have "stop r w = (Returns (), w) \<and> threads_started (start (start w)) = 1"
    if "StationController_init n lg cfg = Inr w"
    using that by (auto simp: StationController_init_def stop_def start_def split: option.splits)
  ultimately show ?thesis by (simp add: start_def stop_def)
qed

theorem start_stop_idempotent_witness:
  "running (start station1) \<and> start (start station1) = start station1 \<and>
   threads_started (start (start station1)) = 1 \<and>
   \<not> running station1 \<and> stop (Returns ()) station1 = (Returns (), station1) \<and>
   StationController_init 1 (log_events [] (DataLogger_init None)) example_config = Inr station1"
  using start_stop_idempotent [of "start station1" "Returns ()" "Returns ()" 1 "DataLogger_init None" example_config]
    start_stop_idempotent [of station1 "Returns ()" "Returns ()" 1 "log_events [] (DataLogger_init None)" example_config]
    station1_init
  by (simp add: start_def station1_def)

text \<open>
  Claim C10.  Start from a controller as \<open>__init__\<close> leaves it and go through any number
  of loop iterations whose state handler returned without raising, interleaved with log
  events of other writers and calls of \<open>start\<close> and \<open>stop\<close>.  At the start and after each
  of these steps, \<open>current_part\<close> is \<open>None\<close> exactly when the state is \<open>IDLE\<close>.
\<close>

theorem part_owned_iff_not_idle:
  assumes "StationController_init n lg cfg = Inr w0" and "reachable_quietly w0 w"
  shows "(current_part w = None) = (state w = IDLE)"
  using assms by (rule reachable_quietly_part_iff_idle)

theorem part_owned_iff_not_idle_witness:
  "StationController_init 1 (log_events [] (DataLogger_init None)) example_config = Inr station1 \<and>
   reachable_quietly station1 station1 \<and> current_part station1 = None \<and> state station1 = IDLE \<and>
   reachable_quietly station1 entered1 \<and> current_part entered1 = Some 0 \<and>
   state entered1 = ADVANCING_TO_PROCESS"
proof -
  have r0: "reachable_quietly station1 station1" by (rule reachable_quietly.initial)
  have r1: "reachable_quietly station1 entered1"
    unfolding entered1_def by (rule reachable_quietly.iteration [OF r0 entered1_fields(8)])
  show ?thesis
    using part_owned_iff_not_idle [OF station1_init r0] part_owned_iff_not_idle [OF station1_init r1]
      station1_init r0 r1 entered1_fields init_fields [OF station1_init]
    by simp
qed

lemma run_iteration_returns:
  assumes "recovery_stop env (motor_num w) = Returns ()"
  shows "fst (run_iteration env w) = Returns ()"
    and "fixed_fields (snd (run_iteration env w)) = fixed_fields w"
proof -
  obtain res w1 where h: "handle_state env w = (res, w1)" by (cases "handle_state env w") auto
  from handle_state_fixed [OF h] have f: "fixed_fields w1 = fixed_fields w" .
  then have m: "motor_num w1 = motor_num w" by (simp add: fixed_fields_def)
  show "fst (run_iteration env w) = Returns ()"
    using h m assms by (cases res) (simp_all add: run_iteration_unfold)
  show "fixed_fields (snd (run_iteration env w)) = fixed_fields w"
    using h m assms f by (cases res) (simp_all add: run_iteration_unfold fixed_fields_def)
qed

lemma run_keeps_looping:
  assumes "running w" "\<not> stop_event w"
    and "\<forall>x \<in> set envs. recovery_stop x (motor_num w) = Returns ()"
  shows "fst (run envs w) = StillLooping"
  using assms
proof (induction envs arbitrary: w)
  case Nil
  then show ?case by simp
next
  case (Cons env envs)
  from Cons.prems have r: "recovery_stop env (motor_num w) = Returns ()" by simp
  obtain w' where it: "run_iteration env w = (Returns (), w')"
    using run_iteration_returns(1) [OF r] by (cases "run_iteration env w") auto
  with run_iteration_returns(2) [OF r] have f: "fixed_fields w' = fixed_fields w" by simp
  then have "running w'" "\<not> stop_event w'" "motor_num w' = motor_num w"
    using Cons.prems by (simp_all add: fixed_fields_def)
  with Cons.prems have "fst (run envs w') = StillLooping"
    by (intro Cons.IH) simp_all
  with it Cons.prems show ?case by simp
qed

text \<open>
  Claim C7, as amended.  When a state handler raises in a loop iteration, the state is
  the one the iteration began in, and the \<open>except\<close> clause calls \<open>motors.stop\<close> for the
  station's motor.  If that call returns, the iteration sleeps one second and ends
  normally, and a running loop goes on with the next iteration from there.  If that call
  raises, its exception leaves the iteration and the loop ends with it.  A running loop
  whose recovery stops all return is still looping after any number of iterations.
\<close>

theorem loop_recovers_from_handler_exception:
  assumes "handle_state env w = (Raises e, w1)"
  shows "state w1 = state w \<and>
         (recovery_stop env (motor_num w) = Returns () \<longrightarrow>
            run_iteration env w =
              (Returns (), w1\<lparr>trace := trace w1 @ [Stop (motor_num w), Sleep 1000]\<rparr>) \<and>
            (running w \<and> \<not> stop_event w \<longrightarrow>
               run (env # envs) w =
                 run envs (w1\<lparr>trace := trace w1 @ [Stop (motor_num w), Sleep 1000]\<rparr>))) \<and>
         (\<forall>e'. recovery_stop env (motor_num w) = Raises e' \<longrightarrow>
            run_iteration env w = (Raises e', w1\<lparr>trace := trace w1 @ [Stop (motor_num w)]\<rparr>) \<and>
            (running w \<and> \<not> stop_event w \<longrightarrow>
               run (env # envs) w = (LoopRaised e', w1\<lparr>trace := trace w1 @ [Stop (motor_num w)]\<rparr>))) \<and>
         (running w \<and> \<not> stop_event w \<and>
          (\<forall>x \<in> set envs. recovery_stop x (motor_num w) = Returns ()) \<longrightarrow>
            fst (run envs w) = StillLooping)"
proof -
  from handle_state_fixed [OF assms] have m: "motor_num w1 = motor_num w"
    by (simp add: fixed_fields_def)
  have "state w1 = state w" by (rule handle_state_raises [OF assms])
  moreover have "run_iteration env w =
      (Returns (), w1\<lparr>trace := trace w1 @ [Stop (motor_num w), Sleep 1000]\<rparr>)"
    if "recovery_stop env (motor_num w) = Returns ()"
    using that assms m by (simp add: run_iteration_unfold)
  moreover have "run_iteration env w = (Raises e', w1\<lparr>trace := trace w1 @ [Stop (motor_num w)]\<rparr>)"
    if "recovery_stop env (motor_num w) = Raises e'" for e'
    using that assms m by (simp add: run_iteration_unfold)
  moreover have "fst (run envs w) = StillLooping"
    if "running w" "\<not> stop_event w" "\<forall>x \<in> set envs. recovery_stop x (motor_num w) = Returns ()"
    using that by (rule run_keeps_looping)
  ultimately show ?thesis by simp
qed

theorem loop_recovers_from_handler_exception_witness:
  "handle_state glitch_env (start station1) =
     (Raises OSError, (start station1)\<lparr>trace := [ReadEntry 1]\<rparr>) \<and>
   recovery_stop glitch_env (motor_num (start station1)) = Returns () \<and>
   running (start station1) \<and> \<not> stop_event (start station1) \<and>
   run_iteration glitch_env (start station1) =
     (Returns (), (start station1)\<lparr>trace := [ReadEntry 1, Stop 3, Sleep 1000]\<rparr>) \<and>
   state (snd (run_iteration glitch_env (start station1))) = IDLE \<and>
   fst (run [glitch_env, glitch_env, arrival_env] (start station1)) = StillLooping \<and>
   handle_state bus_down_env (start station1) =
     (Raises OSError, (start station1)\<lparr>trace := [ReadEntry 1]\<rparr>) \<and>
   recovery_stop bus_down_env (motor_num (start station1)) = Raises OSError \<and>
   run_iteration bus_down_env (start station1) =
     (Raises OSError, (start station1)\<lparr>trace := [ReadEntry 1, Stop 3]\<rparr>)"
proof -
  have h: "handle_state glitch_env (start station1) =
     (Raises OSError, (start station1)\<lparr>trace := [ReadEntry 1]\<rparr>)"
    "handle_state bus_down_env (start station1) =
     (Raises OSError, (start station1)\<lparr>trace := [ReadEntry 1]\<rparr>)"
    by (simp_all add: glitch_env_def station1_def start_def handler_defs env_defs prog_defs)
  have r: "recovery_stop glitch_env (motor_num (start station1)) = Returns ()"
    "recovery_stop arrival_env (motor_num (start station1)) = Returns ()"
    "recovery_stop bus_down_env (motor_num (start station1)) = Raises OSError"
    "running (start station1)" "\<not> stop_event (start station1)" "motor_num (start station1) = 3"
    "state (start station1) = IDLE"
    by (simp_all add: glitch_env_def station1_def start_def env_defs)
  show ?thesis
    using loop_recovers_from_handler_exception [OF h(1), of "[glitch_env, glitch_env, arrival_env]"]
      loop_recovers_from_handler_exception [OF h(2), of "[]"] h r
    by (simp del: run.simps)
qed

theorem loop_ends_when_recovery_stop_raises:
  "running (start station1) \<and> \<not> stop_event (start station1) \<and>
   fst (handle_state bus_down_env (start station1)) = Raises OSError \<and>
   run [bus_down_env] (start station1) =
     (LoopRaised OSError, (start station1)\<lparr>trace := [ReadEntry 1, Stop 3]\<rparr>)"
  by (simp add: station1_def start_def handler_defs env_defs prog_defs)

lemma advancing_timeout:
  assumes "set_speed env (motor_num w) (motor_speed w) = Returns ()"
    and "wait_for_pi env (if station_num w = 1 then pin1 else pin2) 10000 = Returns False"
    and "motor_stop env (motor_num w) = Returns ()"
    and "file_append (logging env) = Returns ()"
    and "current_part w = Some r"
    and "act \<noteq> ''EXIT''"
  shows "advancing env pin1 pin2 reached act w =
    (Returns (),
     w\<lparr>trace := trace w @ [SetSpeed (motor_num w) (motor_speed w),
                             WaitForPi (if station_num w = 1 then pin1 else pin2) 10000,
                             Stop (motor_num w)],
       data_logger := (data_logger w)\<lparr>log_file := log_file (data_logger w) @
          [[timestamp (logging env), station_id w, part_id (parts w r), act]]\<rparr>,
       current_part := None, state := IDLE\<rparr>)"
  using assms
  by (simp add: advancing_def Let_def log_current_def log_event_appended update_kpis_not_exit)

text \<open>
  Claim C1.  Let the controller be as the control loop can reach it from \<open>__init__\<close> (by
  loop iterations, whether their handler raised or not, by log events of other writers,
  by \<open>start\<close> and \<open>stop\<close>), and let the two motor calls return and the row append succeed.
  In state \<open>ADVANCING_TO_PROCESS\<close>, if the wait on the process sensor returns false, the
  handler the loop runs returns normally, having called \<open>set_speed\<close>, the wait and
  \<open>stop\<close> in this order and nothing else; exactly one row is appended to the log file,
  \<open>ERROR_TIMEOUT_PROCESS\<close> for the current part, the KPI counters are as before,
  \<open>current_part\<close> is \<open>None\<close> and the state is \<open>IDLE\<close>.  The same holds in state
  \<open>ADVANCING_TO_EXIT\<close> for the exit sensor and \<open>ERROR_TIMEOUT_EXIT\<close>.  Consequently
  (last conjunct), among the rows this station has appended since \<open>__init__\<close>, every
  \<open>EXIT\<close>, \<open>ERROR_TIMEOUT_PROCESS\<close> or \<open>ERROR_TIMEOUT_EXIT\<close> row comes directly after the
  \<open>ENTER\<close> row of the same part: the transit an \<open>ENTER\<close> row opens is closed by at most
  one such row, so no \<open>EXIT\<close> is logged for a transit that timed out and no transit has
  both an \<open>EXIT\<close> and a timeout error.
\<close>

theorem advancing_timeout_abandons_part:
  assumes "StationController_init n (log_events cs (DataLogger_init existing)) cfg = Inr w0"
    and "reachable w0 w"
    and "set_speed env (motor_num w) (motor_speed w) = Returns ()"
    and "motor_stop env (motor_num w) = Returns ()"
    and "file_append (logging env) = Returns ()"
  shows
    "(state w = ADVANCING_TO_PROCESS \<and>
      wait_for_pi env (if station_num w = 1 then STATION1_PROCESS else STATION2_PROCESS) 10000 = Returns False \<longrightarrow>
        (\<exists>r. current_part w = Some r \<and>
           handle_state env w =
             (Returns (),
              w\<lparr>trace := trace w @ [SetSpeed (motor_num w) (motor_speed w),
                     WaitForPi (if station_num w = 1 then STATION1_PROCESS else STATION2_PROCESS) 10000,
                     Stop (motor_num w)],
                data_logger := (data_logger w)\<lparr>log_file := log_file (data_logger w) @
                   [[timestamp (logging env), station_id w, part_id (parts w r), ''ERROR_TIMEOUT_PROCESS'']]\<rparr>,
                current_part := None, state := IDLE\<rparr>))) \<and>
     (state w = ADVANCING_TO_EXIT \<and>
      wait_for_pi env (if station_num w = 1 then STATION1_EXIT else STATION2_EXIT) 10000 = Returns False \<longrightarrow>
        (\<exists>r. current_part w = Some r \<and>
           handle_state env w =
             (Returns (),
              w\<lparr>trace := trace w @ [SetSpeed (motor_num w) (motor_speed w),
                     WaitForPi (if station_num w = 1 then STATION1_EXIT else STATION2_EXIT) 10000,
                     Stop (motor_num w)],
                data_logger := (data_logger w)\<lparr>log_file := log_file (data_logger w) @
                   [[timestamp (logging env), station_id w, part_id (parts w r), ''ERROR_TIMEOUT_EXIT'']]\<rparr>,
                current_part := None, state := IDLE\<rparr>))) \<and>
     transits_from None (own_rows w0 w)"
proof -
  have inv: "transit_inv w0 w" by (rule reachable_transit_inv [OF assms(1,2)])
  have part: "\<exists>r. current_part w = Some r" if "state w \<noteq> IDLE"
    using inv that by (auto simp: transit_inv_def)
  have "\<exists>r. current_part w = Some r \<and>
           handle_state env w =
             (Returns (),
              w\<lparr>trace := trace w @ [SetSpeed (motor_num w) (motor_speed w),
                     WaitForPi (if station_num w = 1 then STATION1_PROCESS else STATION2_PROCESS) 10000,
                     Stop (motor_num w)],
                data_logger := (data_logger w)\<lparr>log_file := log_file (data_logger w) @
                   [[timestamp (logging env), station_id w, part_id (parts w r), ''ERROR_TIMEOUT_PROCESS'']]\<rparr>,
                current_part := None, state := IDLE\<rparr>)"
    if s: "state w = ADVANCING_TO_PROCESS"
      and t: "wait_for_pi env (if station_num w = 1 then STATION1_PROCESS else STATION2_PROCESS) 10000 = Returns False"
  proof -
    from part s obtain r where r: "current_part w = Some r" by auto
    have "''ERROR_TIMEOUT_PROCESS'' \<noteq> ''EXIT''" by simp
    from advancing_timeout [OF assms(3) t assms(4,5) r this, of PROCESSING] s r
    show ?thesis by (simp add: handle_state_def state_advancing_to_process_unfold)
  qed
  moreover have "\<exists>r. current_part w = Some r \<and>
           handle_state env w =
             (Returns (),
              w\<lparr>trace := trace w @ [SetSpeed (motor_num w) (motor_speed w),
                     WaitForPi (if station_num w = 1 then STATION1_EXIT else STATION2_EXIT) 10000,
                     Stop (motor_num w)],
                data_logger := (data_logger w)\<lparr>log_file := log_file (data_logger w) @
                   [[timestamp (logging env), station_id w, part_id (parts w r), ''ERROR_TIMEOUT_EXIT'']]\<rparr>,
                current_part := None, state := IDLE\<rparr>)"
    if s: "state w = ADVANCING_TO_EXIT"
      and t: "wait_for_pi env (if station_num w = 1 then STATION1_EXIT else STATION2_EXIT) 10000 = Returns False"
  proof -
    from part s obtain r where r: "current_part w = Some r" by auto
    have "''ERROR_TIMEOUT_EXIT'' \<noteq> ''EXIT''" by simp
    from advancing_timeout [OF assms(3) t assms(4,5) r this, of EXITING] s r
    show ?thesis by (simp add: handle_state_def state_advancing_to_exit_unfold)
  qed
  moreover have "transits_from None (own_rows w0 w)"
    using inv by (simp add: transit_inv_def)
  ultimately show ?thesis by blast
qed

lemma processed1_fields:
  "state processed1 = ADVANCING_TO_EXIT" "current_part processed1 = Some 0"
  "station_num processed1 = 1" "motor_num processed1 = 3" "motor_speed processed1 = 60"
  "log_file (data_logger processed1) = [csv_header, [''2025-01-01 12:00:00'', ''S1'', ''04a1b2c3'', ''ENTER'']]"
  "part_id (parts processed1 0) = ''04a1b2c3''" "station_id processed1 = ''S1''"
  by (simp_all add: processed1_def entered1_def station1_def handler_defs env_defs prog_defs
      DataLogger_init_def create_csv_def new_Part_def add_event_def
      STATION1_PROCESS_def)

theorem advancing_timeout_abandons_part_witness:
  "StationController_init 1 (log_events [] (DataLogger_init None)) example_config = Inr station1 \<and>
   reachable station1 entered1 \<and> state entered1 = ADVANCING_TO_PROCESS \<and>
   set_speed timeout_env (motor_num entered1) (motor_speed entered1) = Returns () \<and>
   motor_stop timeout_env (motor_num entered1) = Returns () \<and>
   file_append (logging timeout_env) = Returns () \<and>
   wait_for_pi timeout_env STATION1_PROCESS 10000 = Returns False \<and>
   handle_state timeout_env entered1 =
     (Returns (),
      entered1\<lparr>trace := trace entered1 @ [SetSpeed 3 60, WaitForPi 27 10000, Stop 3],
        data_logger := (data_logger entered1)\<lparr>log_file :=
          [csv_header,
           [''2025-01-01 12:00:00'', ''S1'', ''04a1b2c3'', ''ENTER''],
           [''2025-01-01 12:00:00'', ''S1'', ''04a1b2c3'', ''ERROR_TIMEOUT_PROCESS'']]\<rparr>,
        current_part := None, state := IDLE\<rparr>) \<and>
   reachable station1 processed1 \<and> state processed1 = ADVANCING_TO_EXIT \<and>
   wait_for_pi timeout_env STATION1_EXIT 10000 = Returns False \<and>
   log_file (data_logger (snd (handle_state timeout_env processed1))) =
     [csv_header,
      [''2025-01-01 12:00:00'', ''S1'', ''04a1b2c3'', ''ENTER''],
      [''2025-01-01 12:00:00'', ''S1'', ''04a1b2c3'', ''ERROR_TIMEOUT_EXIT'']] \<and>
   transits_from None (own_rows station1 (snd (run_iteration timeout_env entered1)))"
proof -
  have r1: "reachable station1 entered1"
    unfolding entered1_def by (rule reachable.iteration [OF reachable.initial])
  have r2: "reachable station1 processed1"
    unfolding processed1_def by (intro reachable.iteration r1)
  have r3: "reachable station1 (snd (run_iteration timeout_env entered1))"
    by (rule reachable.iteration [OF r1])
  have e: "set_speed timeout_env m s = Returns ()" "motor_stop timeout_env m = Returns ()"
    "file_append (logging timeout_env) = Returns ()"
    "wait_for_pi timeout_env p 10000 = Returns False"
    "timestamp (logging timeout_env) = ''2025-01-01 12:00:00''" for m s p
    by (simp_all add: env_defs)
  show ?thesis
    using advancing_timeout_abandons_part [OF station1_init r1 e(1-3)]
      advancing_timeout_abandons_part [OF station1_init r2 e(1-3)]
      advancing_timeout_abandons_part [OF station1_init r3 e(1-3), THEN conjunct2, THEN conjunct2]
      station1_init r1 r2 e entered1_fields processed1_fields
    by (simp add: STATION1_PROCESS_def STATION1_EXIT_def)
qed

lemma state_exiting_completes:
  assumes speed: "set_speed env (motor_num w) (motor_speed w) = Returns ()"
    and polls: "\<forall>t. \<exists>b. (if station_num w = 1 then station1_exit env else station2_exit env) t = Returns b"
    and stopped: "motor_stop env (motor_num w) = Returns ()"
  obtains tr where "list_all wait_effect tr"
    and "state_exiting env w =
      (case current_part w of
         None \<Rightarrow> (Returns (),
                   w\<lparr>trace := trace w @ SetSpeed (motor_num w) (motor_speed w) # tr @ [Stop (motor_num w)],
                     current_part := None, state := IDLE\<rparr>)
       | Some r \<Rightarrow>
           (case log_current env ''EXIT''
                   (w\<lparr>trace := trace w @ SetSpeed (motor_num w) (motor_speed w) # tr @ [Stop (motor_num w)]\<rparr>) of
              (Raises e, w4) \<Rightarrow> (Raises e, w4)
            | (Returns u, w4) \<Rightarrow>
                (Returns (),
                 w4\<lparr>parts := (parts w4)(r := add_event (station_id w4) ''EXIT''
                        (timestamp (logging env)) (parts w4 r)),
                    current_part := None, state := IDLE\<rparr>)))"
proof -
  define w1 where "w1 = w\<lparr>trace := trace w @ [SetSpeed (motor_num w) (motor_speed w)]\<rparr>"
  define sensor where "sensor = (if station_num w = 1 then station1_exit env else station2_exit env)"
  define n :: int where "n = (if station_num w = 1 then 1 else 2)"
  obtain r2 tr where ew: "exit_wait sensor n 0 w1 = (r2, w1\<lparr>trace := trace w1 @ tr\<rparr>)"
    and tr: "list_all wait_effect tr"
    and r2: "(\<forall>u. \<exists>b. sensor u = Returns b) \<Longrightarrow> r2 = Returns ()"
    by (rule exit_wait_result [of sensor n 0 w1]) blast
  from polls r2 have ok: "r2 = Returns ()" by (simp add: sensor_def)
  define w2 where "w2 = w1\<lparr>trace := trace w1 @ tr\<rparr>"
  define w3 where "w3 = w2\<lparr>trace := trace w2 @ [Stop (motor_num w)]\<rparr>"
  have sel: "(if station_num w = 1 then exit_wait (station1_exit env) 1 0 w1
              else exit_wait (station2_exit env) 2 0 w1) = (Returns (), w2)"
    using ew ok by (cases "station_num w = 1") (simp_all add: sensor_def n_def w2_def)
  have a: "motors_set_speed env w = (Returns (), w1)"
    using speed by (simp add: motors_set_speed_def do_call_def w1_def)
  have b: "motors_stop env w2 = (Returns (), w3)"
    using stopped by (simp add: motors_stop_def do_call_def w3_def w2_def w1_def)
  have c: "station_num w1 = station_num w" "current_part w3 = current_part w"
    by (simp_all add: w1_def w2_def w3_def)
  have w3: "w3 = w\<lparr>trace := trace w @ SetSpeed (motor_num w) (motor_speed w) # tr @ [Stop (motor_num w)]\<rparr>"
    by (simp add: w1_def w2_def w3_def)
  have "state_exiting env w =
      (case current_part w of
         None \<Rightarrow> (Returns (), w3\<lparr>current_part := None, state := IDLE\<rparr>)
       | Some r \<Rightarrow>
           (case log_current env ''EXIT'' w3 of
              (Raises e, w4) \<Rightarrow> (Raises e, w4)
            | (Returns u, w4) \<Rightarrow>
                (Returns (),
                 w4\<lparr>parts := (parts w4)(r := add_event (station_id w4) ''EXIT''
                        (timestamp (logging env)) (parts w4 r)),
                    current_part := None, state := IDLE\<rparr>)))"
  proof (cases "current_part w")
    case None
    then show ?thesis
      unfolding state_exiting_def seq_def
      by (simp add: bind_def a b c sel modify_def ret_def)
  next
    case (Some r)
    obtain r4 w4 where lc: "log_current env ''EXIT'' w3 = (r4, w4)"
      by (cases "log_current env ''EXIT'' w3") auto
    from lc have cp: "r4 = Returns () \<Longrightarrow> current_part w4 = Some r"
      using Some c(2) by (cases rule: log_current_cases) auto
    show ?thesis
      unfolding state_exiting_def seq_def
      using Some lc cp
      by (cases r4) (simp_all add: bind_def a b c sel modify_def ret_def part_add_event_def)
  qed
  with tr show ?thesis unfolding w3 by (rule that)
qed

text \<open>
  Claim C2.  Let the data logger be as \<open>log_event\<close> calls left it since its
  initialisation, and let the motor calls and every poll of the exit sensor return and
  the row append succeed.  Then \<open>_state_exiting\<close> returns normally, whatever the exit
  sensor reads (cleared at some poll, or blocked until the five seconds are over).  The
  calls it makes are \<open>set_speed\<close>, then polls of the exit sensor and sleeps, then
  \<open>stop\<close>.  If \<open>current_part\<close> was \<open>None\<close>, the data logger and the parts are untouched.
  Otherwise exactly one row is appended to the log file, \<open>EXIT\<close> for that part, the KPI
  counters are those \<open>log_event\<close> computes for it, and the \<open>EXIT\<close> event is appended to
  the history of that part.  In both cases \<open>current_part\<close> is \<open>None\<close> and the state is
  \<open>IDLE\<close> afterwards.
\<close>

theorem exiting_logs_exit_and_returns_to_idle:
  assumes "data_logger w = log_events cs (DataLogger_init existing)"
    and "set_speed env (motor_num w) (motor_speed w) = Returns ()"
    and "\<forall>t. \<exists>b. (if station_num w = 1 then station1_exit env else station2_exit env) t = Returns b"
    and "motor_stop env (motor_num w) = Returns ()"
    and "file_append (logging env) = Returns ()"
    and "w' = snd (state_exiting env w)"
  shows "fst (state_exiting env w) = Returns () \<and>
         current_part w' = None \<and> state w' = IDLE \<and>
         (\<exists>polls. list_all wait_effect polls \<and>
            trace w' = trace w @ SetSpeed (motor_num w) (motor_speed w) # polls @ [Stop (motor_num w)]) \<and>
         (case current_part w of
            None \<Rightarrow> data_logger w' = data_logger w \<and> parts w' = parts w
          | Some r \<Rightarrow>
              kpis (data_logger w') =
                kpis (snd (log_event (logging env) (part_id (parts w r)) (station_id w) ''EXIT''
                        (data_logger w))) \<and>
              log_file (data_logger w') =
                log_file (data_logger w) @
                  [[timestamp (logging env), station_id w, part_id (parts w r), ''EXIT'']] \<and>
              parts w' =
                (parts w)(r := add_event (station_id w) ''EXIT'' (timestamp (logging env)) (parts w r)))"
proof -
  have keys: "kpi_keys_present (data_logger w)"
    unfolding assms(1) by (rule log_events_keys [OF DataLogger_init_keys])
  from state_exiting_completes [OF assms(2-4)] obtain tr where tr: "list_all wait_effect tr"
    and run: "state_exiting env w =
      (case current_part w of
         None \<Rightarrow> (Returns (),
                   w\<lparr>trace := trace w @ SetSpeed (motor_num w) (motor_speed w) # tr @ [Stop (motor_num w)],
                     current_part := None, state := IDLE\<rparr>)
       | Some r \<Rightarrow>
           (case log_current env ''EXIT''
                   (w\<lparr>trace := trace w @ SetSpeed (motor_num w) (motor_speed w) # tr @ [Stop (motor_num w)]\<rparr>) of
              (Raises e, w4) \<Rightarrow> (Raises e, w4)
            | (Returns u, w4) \<Rightarrow>
                (Returns (),
                 w4\<lparr>parts := (parts w4)(r := add_event (station_id w4) ''EXIT''
                        (timestamp (logging env)) (parts w4 r)),
                    current_part := None, state := IDLE\<rparr>)))"
    by blast
  show ?thesis
  proof (cases "current_part w")
    case None
    with run tr assms(6) show ?thesis by auto
  next
    case (Some r)
    let ?w3 = "w\<lparr>trace := trace w @ SetSpeed (motor_num w) (motor_speed w) # tr @ [Stop (motor_num w)]\<rparr>"
    let ?le = "log_event (logging env) (part_id (parts w r)) (station_id w) ''EXIT'' (data_logger w)"
    note ex = log_event_exit [OF keys assms(5), of "part_id (parts w r)" "station_id w"]
    have "log_current env ''EXIT'' ?w3 = (Returns (), ?w3\<lparr>data_logger := snd ?le\<rparr>)"
      using Some ex by (cases ?le) (simp add: log_current_def)
    with run Some tr assms(6) ex show ?thesis by auto
  qed
qed

lemma at_exit1_fields:
  "state at_exit1 = EXITING" "current_part at_exit1 = Some 0"
  "station_num at_exit1 = 1" "motor_num at_exit1 = 3" "motor_speed at_exit1 = 60"
  "data_logger at_exit1 = log_events [(ok_log_env, ''04a1b2c3'', ''S1'', ''ENTER'')] (DataLogger_init None)"
  "log_file (data_logger at_exit1) = [csv_header, [''2025-01-01 12:00:00'', ''S1'', ''04a1b2c3'', ''ENTER'']]"
  "part_id (parts at_exit1 0) = ''04a1b2c3''" "station_id at_exit1 = ''S1''"
  "events (parts at_exit1 0) = [(''S1'', ''ENTER'', ''2025-01-01 12:00:00'')]"
  by (simp_all add: at_exit1_def processed1_def entered1_def station1_def handler_defs env_defs prog_defs
      DataLogger_init_def create_csv_def new_Part_def add_event_def log_call_def
      STATION1_PROCESS_def STATION1_EXIT_def)

theorem exiting_logs_exit_and_returns_to_idle_witness:
  "data_logger at_exit1 = log_events [(ok_log_env, ''04a1b2c3'', ''S1'', ''ENTER'')] (DataLogger_init None) \<and>
   set_speed arrival_env (motor_num at_exit1) (motor_speed at_exit1) = Returns () \<and>
   set_speed stuck_env (motor_num at_exit1) (motor_speed at_exit1) = Returns () \<and>
   (\<forall>t. station1_exit arrival_env t = Returns (t < 600)) \<and>
   (\<forall>t. station1_exit stuck_env t = Returns True) \<and>
   motor_stop arrival_env (motor_num at_exit1) = Returns () \<and>
   motor_stop stuck_env (motor_num at_exit1) = Returns () \<and>
   file_append (logging arrival_env) = Returns () \<and>
   file_append (logging stuck_env) = Returns () \<and>
   current_part at_exit1 = Some 0 \<and>
   current_part station1 = None \<and>
   data_logger (snd (state_exiting arrival_env station1)) = data_logger station1 \<and>
   state (snd (state_exiting arrival_env station1)) = IDLE \<and>
   fst (state_exiting arrival_env at_exit1) = Returns () \<and>
   state (snd (state_exiting arrival_env at_exit1)) = IDLE \<and>
   current_part (snd (state_exiting arrival_env at_exit1)) = None \<and>
   log_file (data_logger (snd (state_exiting arrival_env at_exit1))) =
     [csv_header,
      [''2025-01-01 12:00:00'', ''S1'', ''04a1b2c3'', ''ENTER''],
      [''2025-01-01 12:00:00'', ''S1'', ''04a1b2c3'', ''EXIT'']] \<and>
   events (parts (snd (state_exiting arrival_env at_exit1)) 0) =
     [(''S1'', ''ENTER'', ''2025-01-01 12:00:00''), (''S1'', ''EXIT'', ''2025-01-01 12:00:00'')] \<and>
   fst (state_exiting stuck_env at_exit1) = Returns () \<and>
   state (snd (state_exiting stuck_env at_exit1)) = IDLE \<and>
   current_part (snd (state_exiting stuck_env at_exit1)) = None \<and>
   log_file (data_logger (snd (state_exiting stuck_env at_exit1))) =
     [csv_header,
      [''2025-01-01 12:00:00'', ''S1'', ''04a1b2c3'', ''ENTER''],
      [''2025-01-01 12:00:00'', ''S1'', ''04a1b2c3'', ''EXIT'']]"
proof -
  have e: "set_speed arrival_env m s = Returns ()" "set_speed stuck_env m s = Returns ()"
    "motor_stop arrival_env m = Returns ()" "motor_stop stuck_env m = Returns ()"
    "file_append (logging arrival_env) = Returns ()" "file_append (logging stuck_env) = Returns ()"
    "timestamp (logging arrival_env) = ''2025-01-01 12:00:00''"
    "timestamp (logging stuck_env) = ''2025-01-01 12:00:00''"
    "station1_exit arrival_env t = Returns (t < 600)" "station1_exit stuck_env t = Returns True" for m s t
    by (simp_all add: env_defs)
  have n: "data_logger station1 = log_events [] (DataLogger_init None)"
    "current_part station1 = None"
    "\<forall>t. \<exists>b. (if station_num station1 = 1 then station1_exit arrival_env else station2_exit arrival_env) t = Returns b"
    by (auto simp: station1_def e)
  have p: "\<forall>t. \<exists>b. (if station_num at_exit1 = 1 then station1_exit arrival_env else station2_exit arrival_env) t = Returns b"
    "\<forall>t. \<exists>b. (if station_num at_exit1 = 1 then station1_exit stuck_env else station2_exit stuck_env) t = Returns b"
    by (auto simp: at_exit1_fields e)
  show ?thesis
    by (rule conjI [OF at_exit1_fields(6)])
       (use exiting_logs_exit_and_returns_to_idle [OF at_exit1_fields(6) e(1) p(1) e(3) e(5) refl]
          exiting_logs_exit_and_returns_to_idle [OF at_exit1_fields(6) e(2) p(2) e(4) e(6) refl]
          exiting_logs_exit_and_returns_to_idle [OF n(1) e(1) n(3) e(3) e(5) refl]
          e n(2) at_exit1_fields(1-5) at_exit1_fields(7-10)
        in \<open>simp add: add_event_def\<close>)
qed

section \<open>Properties of the sensor reader\<close>

lemma setup_pins_result:
  "snd (setup_pins hw pins s) = s \<and>
   (fst (setup_pins hw pins s) = Returns ()) = list_all (\<lambda>pin. gpio_setup hw pin = Returns ()) pins"
proof (induction pins)
  case Nil
  show ?case by (simp add: ret_def)
next
  case (Cons pin pins)
  then show ?case
    by (cases "gpio_setup hw pin") (auto simp: seq_def bind_def call_def)
qed

lemma configure_pins_result:
  "simulation (snd (configure_pins hw items s)) = simulation s \<and>
   logged (snd (configure_pins hw items s)) = logged s \<and>
   (fst (configure_pins hw items s) = Returns ()) =
     list_all (\<lambda>item. mcp_get_pin hw (snd item) = Returns () \<and>
                       pin_set_direction hw (snd item) = Returns () \<and>
                       pin_set_pull hw (snd item) = Returns ()) items"
proof (induction items arbitrary: s)
  case Nil
  show ?case by (simp add: ret_def)
next
  case (Cons item items)
  obtain name pin_num where item: "item = (name, pin_num)" by (cases item) auto
  show ?case
    unfolding item
    using Cons [of "s\<lparr>mcp_pins := dict_set name pin_num (mcp_pins s)\<rparr>"]
    by (cases "mcp_get_pin hw pin_num"; cases "pin_set_direction hw pin_num";
        cases "pin_set_pull hw pin_num")
       (simp_all add: seq_def bind_def call_def modify_def)
qed

text \<open>
  Claim C8.  The constructor never raises.  The reader it leaves is in simulated mode
  exactly when simulation was asked for, or the hardware libraries are not available, or
  one of the calls into them raised: the native GPIO setup, the I2C bus, the expander,
  or the configuration of one of its pins.  In that last case the last two records it
  logged are the failure with its exception and the fall back to simulation.  Missing
  libraries (an \<open>ImportError\<close> at the imports of the module) make \<open>HARDWARE_AVAILABLE\<close>
  false.
\<close>

theorem sensor_reader_init_never_raises:
  "fst (SensorReader_init simulation_arg hardware_available hw) = Returns () \<and>
   simulation (snd (SensorReader_init simulation_arg hardware_available hw)) =
     (simulation_arg \<or> \<not> hardware_available \<or> \<not> hardware_ok hw) \<and>
   (\<not> simulation_arg \<and> hardware_available \<and> \<not> hardware_ok hw \<longrightarrow>
      (\<exists>e. take 2 (rev (logged (snd (SensorReader_init simulation_arg hardware_available hw)))) =
            [ERROR ''Falling back to simulation mode'', ERROR_exc ''Failed to initialize hardware: '' e])) \<and>
   HARDWARE_AVAILABLE (Raises ImportError) = Inr False"
proof (cases "simulation_arg \<or> \<not> hardware_available")
  case True
  then show ?thesis
    by (auto simp: SensorReader_init_def logger_def modify_def HARDWARE_AVAILABLE_def)
next
  case False
  define s0 where "s0 = \<lparr> simulation = False, mcp = None, mcp_pins = [], logged = [] \<rparr>"
  define body where "body =
             (seq (call (gpio_setmode hw))
             (seq (call (gpio_setwarnings hw))
             (seq (setup_pins hw PI_PINS)
             (seq (logger (INFO (''Initialized '' @ show_nat (length PI_PINS) @ '' native GPIO sensors'')))
             (seq (logger (INFO ''Initializing MCP23017 GPIO expander...''))
             (seq (call (i2c_bus hw))
             (seq (call (mcp23017 hw))
             (seq (modify (\<lambda>s. s\<lparr>mcp := Some ()\<rparr>))
             (seq (configure_pins hw MCP_PIN_MAP)
                  (\<lambda>s. logger (INFO (''Initialized '' @ show_nat (length (mcp_pins s)) @ '' expander sensors'')) s))))))))))"
  have init: "SensorReader_init simulation_arg hardware_available hw =
      try_except body
             (\<lambda>e. seq (logger (ERROR_exc ''Failed to initialize hardware: '' e))
                 (seq (logger (ERROR ''Falling back to simulation mode''))
                      (modify (\<lambda>s. s\<lparr>simulation := True\<rparr>)))) s0"
    using False by (simp add: SensorReader_init_def body_def s0_def)
  have body: "simulation (snd (body s0)) = False \<and>
              (fst (body s0) = Returns ()) = hardware_ok hw"
  proof -
    note sp = setup_pins_result [of hw PI_PINS s0]
    let ?s1 = "s0\<lparr>logged := [INFO (''Initialized '' @ show_nat (length PI_PINS) @ '' native GPIO sensors''),
                              INFO ''Initializing MCP23017 GPIO expander...''], mcp := Some ()\<rparr>"
    note cp = configure_pins_result [of hw MCP_PIN_MAP ?s1]
    show ?thesis
      using sp cp
      by (cases "gpio_setmode hw"; cases "gpio_setwarnings hw"; cases "setup_pins hw PI_PINS s0";
          cases "fst (setup_pins hw PI_PINS s0)";
          cases "i2c_bus hw"; cases "mcp23017 hw"; cases "configure_pins hw MCP_PIN_MAP ?s1";
          cases "fst (configure_pins hw MCP_PIN_MAP ?s1)")
         (auto simp: body_def seq_def bind_def call_def logger_def modify_def hardware_ok_def s0_def)
  qed
  show ?thesis
  proof (cases "body s0")
    case (Pair r s1)
    show ?thesis
    proof (cases r)
      case (Returns u)
      show ?thesis
        unfolding init using Pair Returns body False
        by (auto simp: try_except_def HARDWARE_AVAILABLE_def)
    next
      case (Raises e)
      show ?thesis
        unfolding init using Pair Raises body False
        by (auto simp: try_except_def seq_def bind_def logger_def modify_def HARDWARE_AVAILABLE_def)
    qed
  qed
qed

lemma show_nat_10: "show_nat (Suc (Suc (Suc (Suc (Suc (Suc (Suc (Suc (Suc (Suc 0)))))))))) = ''10''"
  by code_simp

theorem sensor_reader_init_never_raises_witness:
  "\<not> hardware_ok no_hardware \<and>
   SensorReader_init False True no_hardware =
     (Returns (),
      \<lparr> simulation = True, mcp = None, mcp_pins = [],
        logged = [INFO ''Initialized 10 native GPIO sensors'',
                  INFO ''Initializing MCP23017 GPIO expander...'',
                  ERROR_exc ''Failed to initialize hardware: ''
                    (OtherError ''ValueError: No I2C device at address: 0x20''),
                  ERROR ''Falling back to simulation mode''] \<rparr>) \<and>
   HARDWARE_AVAILABLE (Raises ImportError) = Inr False \<and>
   SensorReader_init False False no_hardware =
     (Returns (),
      \<lparr> simulation = True, mcp = None, mcp_pins = [],
        logged = [INFO ''Running in SIMULATION mode''] \<rparr>)"
proof -
  have a: "\<not> hardware_ok no_hardware"
    by (simp add: hardware_ok_def no_hardware_def)
  have b: "logged (snd (SensorReader_init False True no_hardware)) =
     [INFO ''Initialized 10 native GPIO sensors'', INFO ''Initializing MCP23017 GPIO expander...'',
      ERROR_exc ''Failed to initialize hardware: '' (OtherError ''ValueError: No I2C device at address: 0x20''),
      ERROR ''Falling back to simulation mode'']"
    "mcp (snd (SensorReader_init False True no_hardware)) = None"
    "mcp_pins (snd (SensorReader_init False True no_hardware)) = []"
    "SensorReader_init False False no_hardware =
     (Returns (), \<lparr> simulation = True, mcp = None, mcp_pins = [],
        logged = [INFO ''Running in SIMULATION mode''] \<rparr>)"
    by (simp_all add: SensorReader_init_def no_hardware_def PI_PINS_def try_except_def seq_def
        bind_def call_def logger_def modify_def ret_def show_nat_10)
  show ?thesis
    using sensor_reader_init_never_raises [of False True no_hardware] a b
    by (cases "SensorReader_init False True no_hardware";
        cases "snd (SensorReader_init False True no_hardware)") auto
qed

section \<open>Properties of concurrent calls of the data logger\<close>

lemma conc_inv_init: "conc_inv (length (log_file (DataLogger_init existing))) (shared_init existing)"
  by (auto simp: conc_inv_def counting_exit_def shared_init_def holds_lock_def owed_def exits_def kpi_key_def
      DataLogger_init_def)

lemma exits_snoc: "exits k (rows @ [row]) = exits k rows + (if counts_for k row then 1 else 0)"
  by (simp add: exits_def)

lemma goto_simps [simp]:
  "the_logger (goto i p a c) = the_logger c"
  "lock_holder (goto i p a c) = lock_holder c"
  "threads (goto i p a c) = (threads c)(i := At p a)"
  "holds_lock (goto i p a c) j = (if j = i then p \<noteq> Waiting else holds_lock c j)"
  by (simp_all add: goto_def holds_lock_def)

lemma leave_simps [simp]:
  "the_logger (leave i c) = the_logger c"
  "lock_holder (leave i c) = None"
  "threads (leave i c) = (threads c)(i := NotCalling)"
  "holds_lock (leave i c) j = (if j = i then False else holds_lock c j)"
  "owed (leave i c) k = 0"
  by (simp_all add: leave_def holds_lock_def owed_def)

lemma logger_update_simps [simp]:
  "holds_lock (c\<lparr>the_logger := lg\<rparr>) j = holds_lock c j"
  "owed (c\<lparr>the_logger := lg\<rparr>) k = owed c k"
  "holds_lock (c\<lparr>lock_holder := h\<rparr>) j = holds_lock c j"
  "holds_lock (c\<lparr>snapshots := s\<rparr>) j = holds_lock c j"
  "owed (c\<lparr>snapshots := s\<rparr>) k = owed c k"
  by (simp_all add: holds_lock_def owed_def split: option.splits)

lemma owed_goto:
  "owed (goto i p a c) k =
     (if lock_holder c = Some i then owed_by (At p a) k else owed c k)"
  by (auto simp: owed_def goto_def split: option.splits)

lemma step_inv:
  assumes inv: "conc_inv n0 c" and st: "step a c = Some c'"
  shows "conc_inv n0 c'"
proof -
  from inv have len: "n0 \<le> length (log_file (the_logger c))"
    and whole: "list_all (\<lambda>row. length row = 4) (drop n0 (log_file (the_logger c)))"
    and mutex: "\<And>i. holds_lock c i = (lock_holder c = Some i)"
    and ce: "\<And>i. counting_exit (threads c i)"
    and cnt: "\<And>k. kpi_key k \<Longrightarrow>
                kpis (the_logger c) k = Some (exits k (drop n0 (log_file (the_logger c))) - owed c k)"
    by (simp_all add: conc_inv_def)
  show ?thesis
  proof (cases a)
    case (Call i args)
    with st have ts: "threads c i = NotCalling" and c': "c' = goto i Waiting args c"
      by (auto split: thread_state.splits)
    from ts have "\<not> holds_lock c i" by (simp add: holds_lock_def)
    with mutex have "lock_holder c \<noteq> Some i" by simp
    with len whole mutex ce cnt show ?thesis
      by (simp add: conc_inv_def c' owed_goto counting_exit_def)
  next
    case (Acquire i)
    with st obtain args where ts: "threads c i = At Waiting args" and free: "lock_holder c = None"
      and c': "c' = goto i Holding args (c\<lparr>lock_holder := Some i\<rparr>)"
      by (auto split: thread_state.splits pc.splits if_splits)
    from free mutex have nobody: "\<And>j. \<not> holds_lock c j" by simp
    from free have "\<And>k. owed c k = 0" by (simp add: owed_def)
    with len whole nobody ce cnt show ?thesis
      by (cases args) (auto simp: conc_inv_def counting_exit_def c' owed_goto owed_by_def)
  next
    case (Write i)
    with st obtain env pid sid act where ts: "threads c i = At Holding (env, pid, sid, act)"
      by (auto split: thread_state.splits pc.splits)
    then have "holds_lock c i" by (simp add: holds_lock_def)
    with mutex have h: "lock_holder c = Some i" by simp
    with ts have o: "\<And>k. owed c k = 0" by (simp add: owed_def owed_by_def)
    show ?thesis
    proof (cases "file_append env")
      case (Raises e)
      with st Write ts have c': "c' = leave i c" by simp
      with len whole mutex ce cnt o h show ?thesis by (auto simp: conc_inv_def counting_exit_def)
    next
      case (Returns u)
      with st Write ts have c': "c' = goto i Written (env, pid, sid, act)
         (c\<lparr>the_logger := (the_logger c)\<lparr>log_file := log_file (the_logger c) @
                        [[timestamp env, sid, pid, act]]\<rparr>\<rparr>)" by simp
      with len whole mutex ce cnt o h show ?thesis
        by (auto simp: conc_inv_def counting_exit_def owed_goto owed_by_def exits_snoc)
    qed
  next
    case (AddTotal i)
    with st obtain env pid sid act where ts: "threads c i = At Written (env, pid, sid, act)"
      by (auto split: thread_state.splits pc.splits)
    then have "holds_lock c i" by (simp add: holds_lock_def)
    with mutex have h: "lock_holder c = Some i" by simp
    with ts have o: "\<And>k. owed c k = owed_by (At Written (env, pid, sid, act)) k" by (simp add: owed_def)
    show ?thesis
    proof (cases "act = ''EXIT''")
      case False
      with st AddTotal ts have c': "c' = goto i Updated (env, pid, sid, act) c" by simp
      with len whole mutex ce cnt o h False show ?thesis
        by (auto simp: conc_inv_def counting_exit_def owed_goto owed_by_def counts_for_def)
    next
      case True
      from cnt [of "''total_parts''"] obtain v where v: "kpis (the_logger c) ''total_parts'' = Some v"
        by (auto simp: kpi_key_def)
      with st AddTotal ts True have c': "c' = goto i Totalled (env, pid, sid, act)
          (c\<lparr>the_logger := (the_logger c)\<lparr>kpis := (kpis (the_logger c))(''total_parts'' \<mapsto> v + 1)\<rparr>\<rparr>)"
        by (simp add: kpi_incr_def)
      with len whole mutex ce cnt o h True v show ?thesis
        by (auto simp: conc_inv_def counting_exit_def owed_goto owed_by_def counts_for_def kpi_key_def)
    qed
  next
    case (AddStation i)
    with st obtain env pid sid act where ts: "threads c i = At Totalled (env, pid, sid, act)"
      by (auto split: thread_state.splits pc.splits)
    then have "holds_lock c i" by (simp add: holds_lock_def)
    with mutex have h: "lock_holder c = Some i" by simp
    with ts have o: "\<And>k. owed c k = owed_by (At Totalled (env, pid, sid, act)) k" by (simp add: owed_def)
    from ce [of i] ts have ex: "act = ''EXIT''" by (simp add: counting_exit_def)
    from cnt [of "''station1_count''"] cnt [of "''station2_count''"] obtain v1 v2 where
      v: "kpis (the_logger c) ''station1_count'' = Some v1" "kpis (the_logger c) ''station2_count'' = Some v2"
      by (auto simp: kpi_key_def)
    consider (s1) "sid = ''S1''" | (s2) "sid = ''S2''" | (other) "sid \<noteq> ''S1''" "sid \<noteq> ''S2''"
      by blast
    then show ?thesis
    proof cases
      case s1
      with st AddStation ts v have c': "c' = goto i Updated (env, pid, sid, act)
          (c\<lparr>the_logger := (the_logger c)\<lparr>kpis := (kpis (the_logger c))(''station1_count'' \<mapsto> v1 + 1)\<rparr>\<rparr>)"
        by (simp add: kpi_incr_def)
      with len whole mutex ce cnt o h s1 v ex show ?thesis
        by (auto simp: conc_inv_def counting_exit_def owed_goto owed_by_def counts_for_def kpi_key_def)
    next
      case s2
      with st AddStation ts v have c': "c' = goto i Updated (env, pid, sid, act)
          (c\<lparr>the_logger := (the_logger c)\<lparr>kpis := (kpis (the_logger c))(''station2_count'' \<mapsto> v2 + 1)\<rparr>\<rparr>)"
        by (simp add: kpi_incr_def)
      with len whole mutex ce cnt o h s2 v ex show ?thesis
        by (auto simp: conc_inv_def counting_exit_def owed_goto owed_by_def counts_for_def kpi_key_def)
    next
      case other
      with st AddStation ts have c': "c' = goto i Updated (env, pid, sid, act) (c\<lparr>the_logger := the_logger c\<rparr>)"
        by (simp add: ret_def)
      with len whole mutex ce cnt o h other ex show ?thesis
        by (auto simp: conc_inv_def counting_exit_def owed_goto owed_by_def counts_for_def kpi_key_def)
    qed
  next
    case (Release i)
    with st obtain args where ts: "threads c i = At Updated args" and c': "c' = leave i c"
      by (auto split: thread_state.splits pc.splits)
    then have "holds_lock c i" by (simp add: holds_lock_def)
    with mutex have h: "lock_holder c = Some i" by simp
    with ts have o: "\<And>k. owed c k = 0" by (cases args) (simp add: owed_def owed_by_def)
    with len whole mutex ce cnt h c' show ?thesis by (auto simp: conc_inv_def counting_exit_def)
  next
    case Snapshot
    with st have "c' = c\<lparr>snapshots := snapshots c @ [get_kpis (the_logger c)]\<rparr>" by simp
    with len whole mutex ce cnt show ?thesis by (simp add: conc_inv_def)
  qed
qed

lemma exec_inv: "conc_inv n0 c \<Longrightarrow> exec as c = Some c' \<Longrightarrow> conc_inv n0 c'"
proof (induction as arbitrary: c)
  case Nil
  then show ?case by simp
next
  case (Cons a as)
  then obtain c1 where "step a c = Some c1" "exec as c1 = Some c'"
    by (auto split: option.splits)
  with Cons.IH [of c1] step_inv [OF Cons.prems(1)] show ?case by blast
qed

lemma step_snapshots: "step a c = Some c' \<Longrightarrow> \<exists>new. snapshots c' = snapshots c @ new"
  by (cases a)
     (auto simp: goto_def leave_def split: thread_state.splits pc.splits if_splits outcome.splits
        prod.splits)

lemma exec_snapshots: "exec as c = Some c' \<Longrightarrow> \<exists>new. snapshots c' = snapshots c @ new"
proof (induction as arbitrary: c)
  case Nil
  then show ?case by simp
next
  case (Cons a as)
  then obtain c1 where s: "step a c = Some c1" and e: "exec as c1 = Some c'"
    by (auto split: option.splits)
  from step_snapshots [OF s] Cons.IH [OF e] show ?case by auto
qed

lemma solo_is_log_event:
  assumes keys: "kpi_keys_present (the_logger c)" and free: "lock_holder c = None"
    and idle: "threads c i = NotCalling"
  shows "exec (solo i args) c = Some (c\<lparr>the_logger := log_call args (the_logger c)\<rparr>)"
proof -
  obtain env pid sid act where args: "args = (env, pid, sid, act)" by (cases args) auto
  from keys obtain t a b where k: "kpis (the_logger c) ''total_parts'' = Some t"
    "kpis (the_logger c) ''station1_count'' = Some a" "kpis (the_logger c) ''station2_count'' = Some b"
    by (auto simp: kpi_keys_present_def)
  have same: "(threads c)(i := NotCalling) = threads c"
    using idle by (simp add: fun_upd_idem)
  show ?thesis
  proof (cases "file_append env")
    case (Raises e)
    then show ?thesis
      using idle free same
      by (simp add: solo_def args goto_def leave_def log_call_def log_event_def prog_defs)
  next
    case (Returns u)
    then show ?thesis
      using idle free same k
      by (cases "act = ''EXIT''"; cases "sid = ''S1''"; cases "sid = ''S2''")
         (simp_all add: solo_def args goto_def leave_def log_call_def log_event_def prog_defs
            update_kpis_def kpi_incr_def)
  qed
qed

text \<open>
  Claim C4, as amended.  Threads run \<open>log_event\<close> statement by statement, interleaved in
  any order, on a data logger fresh from \<open>__init__\<close>, and \<open>get_kpis\<close> is called at any
  moments.  Then at every moment: at most one thread is inside the \<open>with\<close> block; every
  row appended since the initialisation is a whole row of four cells; for each of the
  three counters, the dictionary, and so the copy \<open>get_kpis\<close> returns now, holds the
  number of appended \<open>EXIT\<close> rows that count for it, less what the thread inside the
  \<open>with\<close> block has written as a row and not yet counted (0 or 1); so whenever no thread
  is inside the block the counters agree with the rows; a call that runs alone from such
  a moment does to the logger what \<open>log_event\<close> does; and the copies returned earlier are
  not changed by later steps.  (\<open>get_kpis\<close> takes no lock: a copy made while a thread is
  between its row append and the end of its counter update is short of the rows.)
\<close>

theorem writers_are_serialised:
  assumes "exec schedule (shared_init existing) = Some c"
    and "n0 = length (log_file (DataLogger_init existing))"
  shows "(\<forall>i j. holds_lock c i \<and> holds_lock c j \<longrightarrow> i = j) \<and>
         list_all (\<lambda>row. length row = 4) (drop n0 (log_file (the_logger c))) \<and>
         (\<forall>k. kpi_key k \<longrightarrow>
              get_kpis (the_logger c) k =
                Some (exits k (drop n0 (log_file (the_logger c))) - owed c k)) \<and>
         (lock_holder c = None \<longrightarrow> counters_match_rows n0 (the_logger c)) \<and>
         (\<forall>i args. lock_holder c = None \<and> threads c i = NotCalling \<longrightarrow>
              exec (solo i args) c = Some (c\<lparr>the_logger := log_call args (the_logger c)\<rparr>)) \<and>
         (\<forall>later c'. exec later c = Some c' \<longrightarrow>
              take (length (snapshots c)) (snapshots c') = snapshots c)"
proof -
  have inv: "conc_inv n0 c"
    unfolding assms(2) by (rule exec_inv [OF conc_inv_init assms(1)])
  then have mutex: "\<And>i. holds_lock c i = (lock_holder c = Some i)"
    and whole: "list_all (\<lambda>row. length row = 4) (drop n0 (log_file (the_logger c)))"
    and cnt: "\<And>k. kpi_key k \<Longrightarrow>
                kpis (the_logger c) k = Some (exits k (drop n0 (log_file (the_logger c))) - owed c k)"
    by (simp_all add: conc_inv_def)
  have keys: "kpi_keys_present (the_logger c)"
    using cnt by (simp add: kpi_keys_present_def kpi_key_def)
  have "\<forall>i j. holds_lock c i \<and> holds_lock c j \<longrightarrow> i = j"
    using mutex by auto
  moreover have "\<forall>k. kpi_key k \<longrightarrow>
              get_kpis (the_logger c) k =
                Some (exits k (drop n0 (log_file (the_logger c))) - owed c k)"
    using cnt by (simp add: get_kpis_def)
  moreover have "lock_holder c = None \<longrightarrow> counters_match_rows n0 (the_logger c)"
    using cnt by (simp add: counters_match_rows_def owed_def kpi_key_def)
  moreover have "\<forall>i args. lock_holder c = None \<and> threads c i = NotCalling \<longrightarrow>
              exec (solo i args) c = Some (c\<lparr>the_logger := log_call args (the_logger c)\<rparr>)"
    using solo_is_log_event [OF keys] by blast
  moreover have "\<forall>later c'. exec later c = Some c' \<longrightarrow>
              take (length (snapshots c)) (snapshots c') = snapshots c"
    using exec_snapshots by fastforce
  ultimately show ?thesis using whole by blast
qed

theorem writers_are_serialised_witness:
  "map_option (map snapshot_view \<circ> snapshots) (exec two_writers (shared_init None)) =
     Some [(Some 2, Some 1, Some 1)] \<and>
   map_option (log_file \<circ> the_logger) (exec two_writers (shared_init None)) =
     Some [csv_header,
           [''2025-01-01 12:00:00'', ''S2'', ''P2'', ''EXIT''],
           [''2025-01-01 12:00:00'', ''S1'', ''P1'', ''EXIT'']] \<and>
   map_option lock_holder (exec two_writers (shared_init None)) = Some None \<and>
   map_option (counters_match_rows 1 \<circ> the_logger) (exec two_writers (shared_init None)) = Some True"
proof -
  obtain c where c: "exec two_writers (shared_init None) = Some c"
    by (simp add: two_writers_def shared_init_def goto_def leave_def ok_log_env_def kpi_incr_def
        DataLogger_init_def)
  have n: "(1::nat) = length (log_file (DataLogger_init None))"
    by (simp add: DataLogger_init_def create_csv_def)
  have v: "map (snapshot_view) (snapshots c) = [(Some 2, Some 1, Some 1)]"
    "log_file (the_logger c) = [csv_header,
           [''2025-01-01 12:00:00'', ''S2'', ''P2'', ''EXIT''],
           [''2025-01-01 12:00:00'', ''S1'', ''P1'', ''EXIT'']]"
    "lock_holder c = None"
    using c
    by (auto simp: two_writers_def shared_init_def goto_def leave_def ok_log_env_def kpi_incr_def
        DataLogger_init_def snapshot_view_def get_kpis_def create_csv_def)
  show ?thesis
    using writers_are_serialised [OF c n] v c by simp
qed

theorem snapshot_sees_half_an_update:
  "map_option (map snapshot_view \<circ> snapshots) (exec torn_schedule (shared_init None)) =
     Some [(Some 1, Some 0, Some 0)] \<and>
   map_option (log_file \<circ> the_logger) (exec torn_schedule (shared_init None)) =
     Some [csv_header, [''2025-01-01 12:00:00'', ''S1'', ''P1'', ''EXIT'']]"
  by (simp add: torn_schedule_def shared_init_def goto_def leave_def ok_log_env_def kpi_incr_def
      DataLogger_init_def snapshot_view_def get_kpis_def create_csv_def)

end
